theory Spec2Isabelle
  imports Main "HOL-Library.Word"
begin

unbundle bit_operations_syntax

section \<open>Bytes and buffers\<close>

text \<open>
  A Node \<open>Buffer\<close> is a list of bytes. JavaScript numbers that the code only uses as
  integers (lengths, offsets, opcodes, checksums) are \<open>int\<close>; the 32-bit coercions of
  the bitwise operators are written out where the code applies them.
\<close>

type_synonym byte = "8 word"

section \<open>protocol/Cipher.ts\<close>

text \<open>
  \<open>result[i] = buffer[i] ^ this.key ^ (i & 0xff)\<close>: the operands are coerced to 32-bit
  integers, and the store into the result buffer keeps the low 8 bits.
\<close>

fun encrypt_loop :: "32 word \<Rightarrow> nat \<Rightarrow> byte list \<Rightarrow> byte list" where
  "encrypt_loop key i [] = []"
| "encrypt_loop key i (b # bs) =
     ucast (ucast b XOR key XOR (word_of_nat i AND 0xff)) # encrypt_loop key (Suc i) bs"

definition encrypt :: "32 word \<Rightarrow> byte list \<Rightarrow> byte list" where
  "encrypt key buffer = encrypt_loop key 0 buffer"

definition decrypt :: "32 word \<Rightarrow> byte list \<Rightarrow> byte list" where
  "decrypt key buffer = encrypt key buffer"

text \<open>The key of \<open>new Cipher()\<close>.\<close>

definition default_key :: "32 word" where
  "default_key = 0x5e"

section \<open>protocol/Checksum.ts\<close>

fun calculate_loop :: "int \<Rightarrow> byte list \<Rightarrow> int" where
  "calculate_loop s [] = s"
| "calculate_loop s (b # bs) = calculate_loop ((s + uint b) AND 0xff) bs"

definition calculate :: "byte list \<Rightarrow> int" where
  "calculate buffer = calculate_loop 0 buffer XOR 0xaa"

text \<open>
  \<open>expectedChecksum\<close> is what \<open>readByte\<close> returned: a byte value, or \<open>undefined\<close>
  (\<open>None\<close>), which is \<open>!==\<close> to every number.
\<close>

definition verify :: "byte list \<Rightarrow> int option \<Rightarrow> bool" where
  "verify buffer expectedChecksum = (Some (calculate buffer) = expectedChecksum)"

section \<open>protocol/types.ts\<close>

text \<open>
  A JavaScript number is an integer (\<open>Number.isInteger\<close>) or not. An integer-valued
  number is its value; any other number (a non-integer, \<open>NaN\<close>, an infinity) is kept
  as its IEEE-754 binary64 pattern, which the code never inspects: it only hands such a
  number to \<open>writeFloatBE\<close>. Negative zero is not told apart from zero.
\<close>

datatype number = IntNum int | DblNum "64 word"

text \<open>
  \<open>ProtocolValue\<close>, with \<open>undefined\<close>. A string is kept as the bytes of its UTF-8
  encoding, one \<open>char\<close> per byte (strings with lone surrogates have no such form and
  are outside the model). An object is the list of its own properties in the order of
  \<open>Object.keys\<close>; \<open>Vec2\<close> and \<open>Vec3\<close> are objects with the properties
  \<open>x\<close>, \<open>y\<close> (and \<open>z\<close>).
\<close>

datatype "value" =
    Undefined
  | Null
  | Bool bool
  | Num number
  | Str string
  | Bytes "byte list"
  | Arr "value list"
  | Obj "(string \<times> value) list"

type_synonym PacketData = "(string \<times> value) list"

record ParsedPacket =
  opcode :: int
  data :: PacketData
  isEncrypted :: bool

text \<open>\<open>enum TYPE\<close>.\<close>

definition TYPE_NULL :: byte where "TYPE_NULL = 0x00"
definition TYPE_BOOL :: byte where "TYPE_BOOL = 0x01"
definition TYPE_BYTE :: byte where "TYPE_BYTE = 0x02"
definition TYPE_SHORT :: byte where "TYPE_SHORT = 0x03"
definition TYPE_INT :: byte where "TYPE_INT = 0x04"
definition TYPE_LONG :: byte where "TYPE_LONG = 0x05"
definition TYPE_FLOAT :: byte where "TYPE_FLOAT = 0x06"
definition TYPE_DOUBLE :: byte where "TYPE_DOUBLE = 0x07"
definition TYPE_STRING :: byte where "TYPE_STRING = 0x08"
definition TYPE_BYTES :: byte where "TYPE_BYTES = 0x09"
definition TYPE_ARRAY :: byte where "TYPE_ARRAY = 0x0a"
definition TYPE_MAP :: byte where "TYPE_MAP = 0x0b"
definition TYPE_VEC2 :: byte where "TYPE_VEC2 = 0x0c"
definition TYPE_VEC3 :: byte where "TYPE_VEC3 = 0x0d"

lemmas TYPE_defs =
  TYPE_NULL_def TYPE_BOOL_def TYPE_BYTE_def TYPE_SHORT_def TYPE_INT_def TYPE_LONG_def
  TYPE_FLOAT_def TYPE_DOUBLE_def TYPE_STRING_def TYPE_BYTES_def TYPE_ARRAY_def TYPE_MAP_def
  TYPE_VEC2_def TYPE_VEC3_def

text \<open>\<open>enum OPCODE\<close>: the values of its 41 members.\<close>

definition OPCODE :: "int list" where
  "OPCODE =
    [0x47, 0x92, 0x1f, 0x33, 0x34, 0x50, 0x51, 0x52, 0x53, 0x60, 0x61, 0x62, 0x63, 0x64,
     0x65, 0x66, 0x5a, 0x3c, 0x8d, 0x6e, 0xa4, 0xb7, 0x2b, 0xd9, 0x4f, 0x7c, 0xe1, 0x70,
     0x71, 0x72, 0x73, 0x74, 0x75, 0x76, 0x80, 0x81, 0x82, 0x83, 0x84, 0x85, 0x86]"

section \<open>The runtime's number conversions\<close>

text \<open>
  The IEEE-754 conversions are done by the JavaScript engine, not by this repository,
  and are taken as parameters:
  \<^item> \<open>toFloat32 v\<close>: the binary32 pattern that \<open>writeFloatBE(v)\<close> stores, that is
    \<open>v\<close> coerced to a number and rounded to single precision;
  \<^item> \<open>fromFloat32 w\<close>, \<open>fromFloat64 w\<close>: the number that \<open>readFloatBE\<close> and
    \<open>readDoubleBE\<close> return for the pattern \<open>w\<close>.
\<close>

record runtime =
  toFloat32 :: "value \<Rightarrow> 32 word"
  fromFloat32 :: "32 word \<Rightarrow> number"
  fromFloat64 :: "64 word \<Rightarrow> number"

section \<open>protocol/VarInt.ts\<close>

text \<open>
  \<open>VarInt.encode\<close>. \<open>value & 0x7f\<close> and \<open>value >>>= 7\<close> coerce \<open>value\<close> to 32
  bits (\<open>mod 2 ^ 32\<close>); the comparison \<open>value > 0x7f\<close> does not.
\<close>

function VarInt_encode_loop :: "int \<Rightarrow> byte list" where
  "VarInt_encode_loop v =
     (if v > 0x7f
      then word_of_int (((v mod 2 ^ 32) AND 0x7f) OR 0x80)
             # VarInt_encode_loop ((v mod 2 ^ 32) div 2 ^ 7)
      else [word_of_int (v AND 0x7f)])"
  by pat_completeness auto
termination
proof (relation "measure nat")
  show "wf (measure nat)" by simp
next
  fix v :: int
  assume "0x7f < v"
  then have "(v mod 2 ^ 32) div 2 ^ 7 \<le> v div 2 ^ 7"
    by (intro zdiv_mono1) (simp_all add: zmod_le_nonneg_dividend)
  also have "\<dots> < v" using \<open>0x7f < v\<close> by simp
  finally show "((v mod 2 ^ 32) div 2 ^ 7, v) \<in> measure nat"
    using \<open>0x7f < v\<close> by simp
qed

declare VarInt_encode_loop.simps [simp del]

definition VarInt_encode :: "int \<Rightarrow> byte list" where
  "VarInt_encode v = VarInt_encode_loop (if v < 0 then v mod 2 ^ 32 else v)"

section \<open>protocol/VarLong.ts\<close>

text \<open>\<open>VarLong.encode\<close> works on a \<open>BigInt\<close>, an unbounded two's-complement integer.\<close>

function VarLong_encode :: "int \<Rightarrow> byte list" where
  "VarLong_encode v =
     (if v > 0x7f
      then word_of_int ((v AND 0x7f) OR 0x80) # VarLong_encode (drop_bit 7 v)
      else [word_of_int (v AND 0x7f)])"
  by pat_completeness auto
termination
proof (relation "measure nat")
  show "wf (measure nat)" by simp
next
  fix v :: int
  assume "0x7f < v"
  then show "(drop_bit 7 v, v) \<in> measure nat"
    by (simp add: drop_bit_eq_div)
qed

declare VarLong_encode.simps [simp del]

section \<open>protocol/ProtocolWriter.ts\<close>

text \<open>
  The writer only appends chunks to its list of buffers, and \<open>toBuffer\<close> concatenates
  them: each method is modelled by the bytes it appends.
\<close>

text \<open>Big-endian bytes of a 16-, 32- and 64-bit word.\<close>

definition be16 :: "16 word \<Rightarrow> byte list" where
  "be16 w = [ucast (drop_bit 8 w), ucast w]"

definition be32 :: "32 word \<Rightarrow> byte list" where
  "be32 w = [ucast (drop_bit 24 w), ucast (drop_bit 16 w), ucast (drop_bit 8 w), ucast w]"

definition writeByte :: "int \<Rightarrow> byte list" where
  "writeByte v = [word_of_int (v AND 0xff)]"

definition writeBool :: "bool \<Rightarrow> byte list" where
  "writeBool v = writeByte (if v then 1 else 0)"

definition writeVarInt :: "int \<Rightarrow> byte list" where
  "writeVarInt v = VarInt_encode v"

definition writeVarLong :: "int \<Rightarrow> byte list" where
  "writeVarLong v = VarLong_encode v"

text \<open>
  \<open>writeInt16BE\<close> and \<open>writeInt32BE\<close> throw on a value outside the signed range;
  \<open>writeValue\<close>, their only caller, guards both calls with that range.
\<close>

definition writeShort :: "int \<Rightarrow> byte list" where
  "writeShort v = be16 (word_of_int v)"

definition writeInt :: "int \<Rightarrow> byte list" where
  "writeInt v = be32 (word_of_int v)"

definition writeFloat :: "runtime \<Rightarrow> value \<Rightarrow> byte list" where
  "writeFloat rt v = be32 (toFloat32 rt v)"

definition utf8 :: "string \<Rightarrow> byte list" where
  "utf8 str = map of_char str"

definition writeString :: "string \<Rightarrow> byte list" where
  "writeString str =
     (if str = [] then writeVarInt 0
      else writeVarInt (int (length (utf8 str))) @ utf8 str)"

definition writeBytes :: "byte list \<Rightarrow> byte list" where
  "writeBytes bytes = writeVarInt (int (length bytes)) @ bytes"

text \<open>\<open>obj.x\<close>: the value of the property, \<open>undefined\<close> when the object has none.\<close>

definition getProp :: "(string \<times> value) list \<Rightarrow> string \<Rightarrow> value" where
  "getProp obj k = (case map_of obj k of None \<Rightarrow> Undefined | Some v \<Rightarrow> v)"

fun writeValue :: "runtime \<Rightarrow> value \<Rightarrow> byte list"
  and writeItems :: "runtime \<Rightarrow> value list \<Rightarrow> byte list"
  and writeEntries :: "runtime \<Rightarrow> (string \<times> value) list \<Rightarrow> byte list"
where
  "writeValue rt Undefined = writeByte (uint TYPE_NULL)"
| "writeValue rt Null = writeByte (uint TYPE_NULL)"
| "writeValue rt (Bool b) = writeByte (uint TYPE_BOOL) @ writeBool b"
| "writeValue rt (Num (IntNum num)) =
     (if num > 2147483647 \<or> num < - 2147483648
        then writeByte (uint TYPE_LONG) @ writeVarLong num
      else if num \<ge> - 128 \<and> num \<le> 127
        then writeByte (uint TYPE_BYTE) @ writeByte num
      else if num \<ge> - 32768 \<and> num \<le> 32767
        then writeByte (uint TYPE_SHORT) @ writeShort num
      else writeByte (uint TYPE_INT) @ writeInt num)"
| "writeValue rt (Num (DblNum w)) = writeByte (uint TYPE_FLOAT) @ writeFloat rt (Num (DblNum w))"
| "writeValue rt (Str s) = writeByte (uint TYPE_STRING) @ writeString s"
| "writeValue rt (Bytes bs) = writeByte (uint TYPE_BYTES) @ writeBytes bs"
| "writeValue rt (Arr vs) =
     writeByte (uint TYPE_ARRAY) @ writeVarInt (int (length vs)) @ writeItems rt vs"
| "writeValue rt (Obj obj) =
     (if getProp obj ''x'' \<noteq> Undefined \<and> getProp obj ''y'' \<noteq> Undefined \<and> getProp obj ''z'' \<noteq> Undefined
        then writeByte (uint TYPE_VEC3) @ writeFloat rt (getProp obj ''x'')
               @ writeFloat rt (getProp obj ''y'') @ writeFloat rt (getProp obj ''z'')
      else if getProp obj ''x'' \<noteq> Undefined \<and> getProp obj ''y'' \<noteq> Undefined
        then writeByte (uint TYPE_VEC2) @ writeFloat rt (getProp obj ''x'')
               @ writeFloat rt (getProp obj ''y'')
      else writeByte (uint TYPE_MAP) @ writeVarInt (int (length obj)) @ writeEntries rt obj)"
| "writeItems rt [] = []"
| "writeItems rt (item # items) = writeValue rt item @ writeItems rt items"
| "writeEntries rt [] = []"
| "writeEntries rt ((key, v) # entries) =
     writeString key @ writeValue rt v @ writeEntries rt entries"

definition writeMap :: "runtime \<Rightarrow> PacketData \<Rightarrow> byte list" where
  "writeMap rt m = writeVarInt (int (length m)) @ writeEntries rt m"

section \<open>protocol/Packet.ts: create\<close>

definition create :: "runtime \<Rightarrow> int \<Rightarrow> PacketData \<Rightarrow> bool \<Rightarrow> byte list" where
  "create rt opc dat enc =
     (let flags = (if enc then 0x01 else 0x00);
          payload = (if enc then encrypt default_key (writeMap rt dat) else writeMap rt dat);
          packetData = writeByte 0x42 @ writeByte 0x4e @ writeByte 0x01 @ writeByte flags
                         @ writeByte opc @ writeVarInt (int (length payload)) @ payload;
          checksum = calculate packetData
      in packetData @ writeByte checksum)"

section \<open>Cipher: properties\<close>

lemma encrypt_loop_length: "length (encrypt_loop key i bs) = length bs"
  by (induction bs arbitrary: i) simp_all

lemma keystream_cancel:
  "(ucast ((ucast (ucast ((ucast (b :: byte) :: 32 word) XOR key XOR m) :: byte) :: 32 word)
      XOR key XOR m) :: byte) = b"
  by (rule bit_word_eqI) (auto simp add: bit_simps)

lemma encrypt_loop_involution:
  "encrypt_loop key i (encrypt_loop key i bs) = bs"
  by (induction bs arbitrary: i) (simp_all add: keystream_cancel)

lemma keystream_byte:
  "(ucast ((ucast (b :: byte) :: 32 word) XOR key XOR m) :: byte) = b XOR ucast (key XOR m)"
  by (rule bit_word_eqI) (auto simp add: bit_simps)

lemma encrypt_loop_nth:
  "j < length bs \<Longrightarrow>
   encrypt_loop key i bs ! j = bs ! j XOR ucast (key XOR (word_of_nat (i + j) AND 0xff))"
proof (induction bs arbitrary: i j)
  case Nil
  then show ?case by simp
next
  case (Cons b bs)
  show ?case
  proof (cases j)
    case 0
    then show ?thesis by (simp add: keystream_byte)
  next
    case (Suc k)
    with Cons.prems have "k < length bs" by simp
    from Cons.IH [OF this, of "Suc i"] Suc show ?thesis by simp
  qed
qed

lemma encrypt_loop_map:
  "encrypt_loop key i bs =
   map (\<lambda>j. bs ! j XOR ucast (key XOR (word_of_nat (i + j) AND 0xff))) [0..<length bs]"
  by (rule nth_equalityI) (simp_all add: encrypt_loop_length encrypt_loop_nth)

text \<open>
  C7. Decrypting an encrypted buffer gives the buffer back, for every key and every buffer
  (the empty one included); byte \<open>i\<close> of the output is byte \<open>i\<close> of the input XORed
  with the keystream byte \<open>key XOR (i AND 0xFF)\<close>; \<open>decrypt\<close> is \<open>encrypt\<close>.
\<close>

theorem cipher_involution:
  "decrypt key (encrypt key x) = x
   \<and> decrypt key [] = []
   \<and> decrypt key = encrypt key
   \<and> encrypt key x =
       map (\<lambda>i. x ! i XOR ucast (key XOR (word_of_nat i AND 0xff))) [0..<length x]"
proof -
  have "decrypt key (encrypt key x) = x"
    by (simp add: decrypt_def encrypt_def encrypt_loop_involution)
  moreover have "decrypt key [] = []"
    by (simp add: decrypt_def encrypt_def)
  moreover have "decrypt key = encrypt key"
    by (rule ext) (simp add: decrypt_def)
  moreover have "encrypt key x =
       map (\<lambda>i. x ! i XOR ucast (key XOR (word_of_nat i AND 0xff))) [0..<length x]"
    using encrypt_loop_map [of key 0 x] by (simp add: encrypt_def)
  ultimately show ?thesis by blast
qed


section \<open>Errors\<close>

text \<open>
  What the decoding code can throw. \<open>Underflow\<close> is \<open>Error('Buffer underflow')\<close>,
  the one error the callers take as "wait for more bytes". \<open>OutOfRange\<close> is the
  \<open>RangeError\<close> of Node's \<open>readInt16BE\<close>, \<open>readInt32BE\<close>, \<open>readFloatBE\<close> and
  \<open>readDoubleBE\<close> on an offset outside the buffer; \<open>InvalidArrayLength\<close> is the
  \<open>RangeError\<close> of \<open>new Array(length)\<close> on a negative length; \<open>StackExhausted\<close> is
  the \<open>RangeError\<close> of a recursion deeper than the call stack.
\<close>

datatype error =
    Underflow
  | UnknownType "byte option"
  | InvalidMagic
  | UnsupportedVersion "byte option"
  | ChecksumMismatch
  | OutOfRange
  | InvalidArrayLength
  | StackExhausted

section \<open>Node's Buffer\<close>

text \<open>\<open>buffer[i]\<close>: \<open>undefined\<close> (\<open>None\<close>) outside the buffer.\<close>

definition at :: "byte list \<Rightarrow> int \<Rightarrow> byte option" where
  "at buf i = (if 0 \<le> i \<and> i < int (length buf) then Some (buf ! nat i) else None)"

text \<open>\<open>Buffer.prototype.slice\<close>: a negative index counts from the end.\<close>

definition adjustOffset :: "int \<Rightarrow> int \<Rightarrow> int" where
  "adjustOffset off len =
     (if off = 0 then 0
      else if off < 0 then (if off + len > 0 then off + len else 0)
      else if off < len then off
      else len)"

definition slice :: "byte list \<Rightarrow> int \<Rightarrow> int \<Rightarrow> byte list" where
  "slice buf start end =
     (let s = adjustOffset start (int (length buf));
          e = adjustOffset end (int (length buf))
      in if e > s then take (nat (e - s)) (drop (nat s) buf) else [])"

text \<open>\<open>buffer.toString('utf8', start, end)\<close>: the indices are clamped to the buffer.\<close>

definition toString_utf8 :: "byte list \<Rightarrow> int \<Rightarrow> int \<Rightarrow> string" where
  "toString_utf8 buf start end =
     (let len = int (length buf) in
      if start > 0 \<and> start \<ge> len then []
      else
        let s = (if start \<le> 0 then 0 else start);
            e = (if end > len then len else end)
        in if e \<le> s then [] else map (\<lambda>b. char_of (unat b)) (take (nat (e - s)) (drop (nat s) buf)))"

text \<open>
  The big-endian reads. Node throws a \<open>RangeError\<close> unless all the bytes lie in the
  buffer.
\<close>

definition in_bounds :: "byte list \<Rightarrow> int \<Rightarrow> nat \<Rightarrow> bool" where
  "in_bounds buf off n = (0 \<le> off \<and> off + int n \<le> int (length buf))"

definition word_be :: "byte list \<Rightarrow> 'a::len word" where
  "word_be bs = foldl (\<lambda>acc b. push_bit 8 acc OR ucast b) 0 bs"

definition bytes_at :: "byte list \<Rightarrow> int \<Rightarrow> nat \<Rightarrow> byte list" where
  "bytes_at buf off n = take n (drop (nat off) buf)"

section \<open>VarInt.decode and VarLong.decode\<close>

text \<open>
  \<open>value |= (byte & 0x7f) << shift\<close> is 32-bit arithmetic: the shift count is taken
  modulo 32 and the result is a signed 32-bit integer. A byte read at a negative index is
  \<open>undefined\<close>, which the bitwise operators take as 0.
\<close>

function VarInt_decode_loop ::
  "byte list \<Rightarrow> int \<Rightarrow> 32 word \<Rightarrow> nat \<Rightarrow> nat \<Rightarrow> error + (int \<times> nat)" where
  "VarInt_decode_loop buf off v shift bytesRead =
     (if off + int bytesRead \<ge> int (length buf) then Inl Underflow
      else
        let byte = (case at buf (off + int bytesRead) of None \<Rightarrow> 0 | Some b \<Rightarrow> b);
            v' = v OR push_bit (shift mod 32) (ucast (byte AND 0x7f))
        in if byte AND 0x80 \<noteq> 0
           then VarInt_decode_loop buf off v' (shift + 7) (bytesRead + 1)
           else Inr (sint v', bytesRead + 1))"
  by pat_completeness auto
termination
  by (relation "measure (\<lambda>(buf, off, v, shift, bytesRead). nat (int (length buf) - (off + int bytesRead)))")
     auto

declare VarInt_decode_loop.simps [simp del]

definition VarInt_decode :: "byte list \<Rightarrow> int \<Rightarrow> error + (int \<times> nat)" where
  "VarInt_decode buf off = VarInt_decode_loop buf off 0 0 0"

text \<open>
  \<open>Number(value)\<close> for a non-negative \<open>BigInt\<close>: the nearest double, ties to even.
  Up to 53 bits are exact; a value that rounds to \<open>2 ^ 1024\<close> is \<open>Infinity\<close>.
\<close>

fun bit_length :: "nat \<Rightarrow> nat" where
  "bit_length n = (if n = 0 then 0 else Suc (bit_length (n div 2)))"

declare bit_length.simps [simp del]

definition Number_of_BigInt :: "nat \<Rightarrow> number" where
  "Number_of_BigInt v =
     (let k = bit_length v in
      if k \<le> 53 then IntNum (int v)
      else
        let sh = k - 53;
            q = v div 2 ^ sh;
            r = v mod 2 ^ sh;
            half = 2 ^ (sh - 1);
            q' = (if r > half \<or> (r = half \<and> odd q) then q + 1 else q)
        in if q' * 2 ^ sh \<ge> 2 ^ 1024 then DblNum 0x7FF0000000000000
           else IntNum (int (q' * 2 ^ sh)))"

function VarLong_decode_loop ::
  "byte list \<Rightarrow> int \<Rightarrow> nat \<Rightarrow> nat \<Rightarrow> nat \<Rightarrow> error + (number \<times> nat)" where
  "VarLong_decode_loop buf off v shift bytesRead =
     (if off + int bytesRead \<ge> int (length buf) then Inl Underflow
      else
        let byte = (case at buf (off + int bytesRead) of None \<Rightarrow> 0 | Some b \<Rightarrow> b);
            v' = v OR push_bit shift (unat (byte AND 0x7f))
        in if byte AND 0x80 \<noteq> 0
           then VarLong_decode_loop buf off v' (shift + 7) (bytesRead + 1)
           else Inr (Number_of_BigInt v', bytesRead + 1))"
  by pat_completeness auto
termination
  by (relation "measure (\<lambda>(buf, off, v, shift, bytesRead). nat (int (length buf) - (off + int bytesRead)))")
     auto

declare VarLong_decode_loop.simps [simp del]

definition VarLong_decode :: "byte list \<Rightarrow> int \<Rightarrow> error + (number \<times> nat)" where
  "VarLong_decode buf off = VarLong_decode_loop buf off 0 0 0"

section \<open>protocol/ProtocolReader.ts\<close>

record ProtocolReader =
  buffer :: "byte list"
  offset :: int

definition new_ProtocolReader :: "byte list \<Rightarrow> ProtocolReader" where
  "new_ProtocolReader buf = \<lparr>buffer = buf, offset = 0\<rparr>"

definition hasBytes :: "ProtocolReader \<Rightarrow> int \<Rightarrow> bool" where
  "hasBytes r count = (offset r + count \<le> int (length (buffer r)))"

definition advance :: "ProtocolReader \<Rightarrow> int \<Rightarrow> ProtocolReader" where
  "advance r n = r\<lparr>offset := offset r + n\<rparr>"

definition read :: "ProtocolReader \<Rightarrow> int \<Rightarrow> error + (byte list \<times> ProtocolReader)" where
  "read r len =
     (if \<not> hasBytes r len then Inl Underflow
      else Inr (slice (buffer r) (offset r) (offset r + len), advance r len))"

definition readByte :: "ProtocolReader \<Rightarrow> error + (byte option \<times> ProtocolReader)" where
  "readByte r =
     (if \<not> hasBytes r 1 then Inl Underflow
      else Inr (at (buffer r) (offset r), advance r 1))"

definition readBool :: "ProtocolReader \<Rightarrow> error + (bool \<times> ProtocolReader)" where
  "readBool r =
     (case readByte r of Inl e \<Rightarrow> Inl e | Inr (b, r') \<Rightarrow> Inr (b \<noteq> Some 0, r'))"

definition readVarInt :: "ProtocolReader \<Rightarrow> error + (int \<times> ProtocolReader)" where
  "readVarInt r =
     (case VarInt_decode (buffer r) (offset r) of
        Inl e \<Rightarrow> Inl e
      | Inr (v, bytesRead) \<Rightarrow> Inr (v, advance r (int bytesRead)))"

definition readVarLong :: "ProtocolReader \<Rightarrow> error + (number \<times> ProtocolReader)" where
  "readVarLong r =
     (case VarLong_decode (buffer r) (offset r) of
        Inl e \<Rightarrow> Inl e
      | Inr (v, bytesRead) \<Rightarrow> Inr (v, advance r (int bytesRead)))"

definition readShort :: "ProtocolReader \<Rightarrow> error + (int \<times> ProtocolReader)" where
  "readShort r =
     (if \<not> in_bounds (buffer r) (offset r) 2 then Inl OutOfRange
      else Inr (sint (word_be (bytes_at (buffer r) (offset r) 2) :: 16 word), advance r 2))"

definition readInt :: "ProtocolReader \<Rightarrow> error + (int \<times> ProtocolReader)" where
  "readInt r =
     (if \<not> in_bounds (buffer r) (offset r) 4 then Inl OutOfRange
      else Inr (sint (word_be (bytes_at (buffer r) (offset r) 4) :: 32 word), advance r 4))"

definition readFloat :: "runtime \<Rightarrow> ProtocolReader \<Rightarrow> error + (number \<times> ProtocolReader)" where
  "readFloat rt r =
     (if \<not> in_bounds (buffer r) (offset r) 4 then Inl OutOfRange
      else Inr (fromFloat32 rt (word_be (bytes_at (buffer r) (offset r) 4)), advance r 4))"

definition readDouble :: "runtime \<Rightarrow> ProtocolReader \<Rightarrow> error + (number \<times> ProtocolReader)" where
  "readDouble rt r =
     (if \<not> in_bounds (buffer r) (offset r) 8 then Inl OutOfRange
      else Inr (fromFloat64 rt (word_be (bytes_at (buffer r) (offset r) 8)), advance r 8))"

definition readString :: "ProtocolReader \<Rightarrow> error + (string \<times> ProtocolReader)" where
  "readString r =
     (case readVarInt r of
        Inl e \<Rightarrow> Inl e
      | Inr (len, r') \<Rightarrow>
          if len = 0 then Inr ([], r')
          else Inr (toString_utf8 (buffer r') (offset r') (offset r' + len), advance r' len))"

definition readBytes :: "ProtocolReader \<Rightarrow> error + (byte list \<times> ProtocolReader)" where
  "readBytes r =
     (case readVarInt r of
        Inl e \<Rightarrow> Inl e
      | Inr (len, r') \<Rightarrow> if len = 0 then Inr ([], r') else read r' len)"

text \<open>
  \<open>map[key] = value\<close> on a plain object. An existing property keeps its place; a new
  array-index key (a canonical decimal below \<open>2 ^ 32 - 1\<close>) goes among the index keys in
  ascending order, before all other keys; any other new key goes last. Assigning to
  \<open>__proto__\<close> creates no own property.
\<close>

definition digit :: "char \<Rightarrow> bool" where
  "digit c = (48 \<le> (of_char c :: nat) \<and> (of_char c :: nat) \<le> 57)"

definition index_value :: "string \<Rightarrow> nat" where
  "index_value k = foldl (\<lambda>acc c. 10 * acc + (of_char c - 48)) 0 k"

definition is_index :: "string \<Rightarrow> bool" where
  "is_index k =
     (k \<noteq> [] \<and> list_all digit k \<and> (hd k = CHR ''0'' \<longrightarrow> length k = 1)
      \<and> index_value k < 2 ^ 32 - 1)"

fun insert_index :: "string \<Rightarrow> value \<Rightarrow> (string \<times> value) list \<Rightarrow> (string \<times> value) list" where
  "insert_index key v [] = [(key, v)]"
| "insert_index key v ((k, x) # m) =
     (if is_index k \<and> index_value k < index_value key
      then (k, x) # insert_index key v m
      else (key, v) # (k, x) # m)"

definition assign :: "(string \<times> value) list \<Rightarrow> string \<Rightarrow> value \<Rightarrow> (string \<times> value) list" where
  "assign m key v =
     (if key = ''__proto__'' then m
      else if key \<in> set (map fst m) then map (\<lambda>(k, x). if k = key then (k, v) else (k, x)) m
      else if is_index key then insert_index key v m
      else m @ [(key, v)])"

text \<open>
  \<open>readValue\<close>, \<open>readArray\<close> and \<open>readMap\<close> call each other, and a negative
  length moves the offset backwards, so that the recursion need not end: the first
  argument is the number of nested \<open>readValue\<close> calls that the stack has room for.
  \<open>readItems\<close> and \<open>readEntries\<close> are the \<open>for\<close> loops of \<open>readArray\<close> and
  \<open>readMap\<close>, with the number of iterations left.
\<close>

fun readValue :: "runtime \<Rightarrow> nat \<Rightarrow> ProtocolReader \<Rightarrow> error + (value \<times> ProtocolReader)"
  and readArray :: "runtime \<Rightarrow> nat \<Rightarrow> ProtocolReader \<Rightarrow> error + (value list \<times> ProtocolReader)"
  and readItems ::
    "runtime \<Rightarrow> nat \<Rightarrow> nat \<Rightarrow> value list \<Rightarrow> ProtocolReader \<Rightarrow> error + (value list \<times> ProtocolReader)"
  and readMap ::
    "runtime \<Rightarrow> nat \<Rightarrow> ProtocolReader \<Rightarrow> error + ((string \<times> value) list \<times> ProtocolReader)"
  and readEntries ::
    "runtime \<Rightarrow> nat \<Rightarrow> nat \<Rightarrow> (string \<times> value) list \<Rightarrow> ProtocolReader
      \<Rightarrow> error + ((string \<times> value) list \<times> ProtocolReader)"
where
  "readValue rt 0 r = Inl StackExhausted"
| "readValue rt (Suc depth) r =
     (case readByte r of
        Inl e \<Rightarrow> Inl e
      | Inr (type, r1) \<Rightarrow>
          if type = Some TYPE_NULL then Inr (Null, r1)
          else if type = Some TYPE_BOOL then
            (case readBool r1 of Inl e \<Rightarrow> Inl e | Inr (b, r2) \<Rightarrow> Inr (Bool b, r2))
          else if type = Some TYPE_BYTE then
            (case readByte r1 of
               Inl e \<Rightarrow> Inl e
             | Inr (None, r2) \<Rightarrow> Inr (Undefined, r2)
             | Inr (Some b, r2) \<Rightarrow> Inr (Num (IntNum (uint b)), r2))
          else if type = Some TYPE_SHORT then
            (case readShort r1 of Inl e \<Rightarrow> Inl e | Inr (n, r2) \<Rightarrow> Inr (Num (IntNum n), r2))
          else if type = Some TYPE_INT then
            (case readInt r1 of Inl e \<Rightarrow> Inl e | Inr (n, r2) \<Rightarrow> Inr (Num (IntNum n), r2))
          else if type = Some TYPE_LONG then
            (case readVarLong r1 of Inl e \<Rightarrow> Inl e | Inr (n, r2) \<Rightarrow> Inr (Num n, r2))
          else if type = Some TYPE_FLOAT then
            (case readFloat rt r1 of Inl e \<Rightarrow> Inl e | Inr (n, r2) \<Rightarrow> Inr (Num n, r2))
          else if type = Some TYPE_DOUBLE then
            (case readDouble rt r1 of Inl e \<Rightarrow> Inl e | Inr (n, r2) \<Rightarrow> Inr (Num n, r2))
          else if type = Some TYPE_STRING then
            (case readString r1 of Inl e \<Rightarrow> Inl e | Inr (s, r2) \<Rightarrow> Inr (Str s, r2))
          else if type = Some TYPE_BYTES then
            (case readBytes r1 of Inl e \<Rightarrow> Inl e | Inr (bs, r2) \<Rightarrow> Inr (Bytes bs, r2))
          else if type = Some TYPE_ARRAY then
            (case readArray rt depth r1 of Inl e \<Rightarrow> Inl e | Inr (arr, r2) \<Rightarrow> Inr (Arr arr, r2))
          else if type = Some TYPE_MAP then
            (case readMap rt depth r1 of Inl e \<Rightarrow> Inl e | Inr (m, r2) \<Rightarrow> Inr (Obj m, r2))
          else if type = Some TYPE_VEC2 then
            (case readFloat rt r1 of
               Inl e \<Rightarrow> Inl e
             | Inr (x, r2) \<Rightarrow>
                 (case readFloat rt r2 of
                    Inl e \<Rightarrow> Inl e
                  | Inr (y, r3) \<Rightarrow> Inr (Obj [(''x'', Num x), (''y'', Num y)], r3)))
          else if type = Some TYPE_VEC3 then
            (case readFloat rt r1 of
               Inl e \<Rightarrow> Inl e
             | Inr (x, r2) \<Rightarrow>
                 (case readFloat rt r2 of
                    Inl e \<Rightarrow> Inl e
                  | Inr (y, r3) \<Rightarrow>
                      (case readFloat rt r3 of
                         Inl e \<Rightarrow> Inl e
                       | Inr (z, r4) \<Rightarrow>
                           Inr (Obj [(''x'', Num x), (''y'', Num y), (''z'', Num z)], r4))))
          else Inl (UnknownType type))"
| "readArray rt depth r =
     (case readVarInt r of
        Inl e \<Rightarrow> Inl e
      | Inr (len, r1) \<Rightarrow>
          if len < 0 then Inl InvalidArrayLength else readItems rt depth (nat len) [] r1)"
| "readItems rt depth 0 arr r = Inr (arr, r)"
| "readItems rt depth (Suc n) arr r =
     (case readValue rt depth r of
        Inl e \<Rightarrow> Inl e
      | Inr (v, r1) \<Rightarrow> readItems rt depth n (arr @ [v]) r1)"
| "readMap rt depth r =
     (case readVarInt r of
        Inl e \<Rightarrow> Inl e
      | Inr (len, r1) \<Rightarrow> readEntries rt depth (nat len) [] r1)"
| "readEntries rt depth 0 m r = Inr (m, r)"
| "readEntries rt depth (Suc n) m r =
     (case readString r of
        Inl e \<Rightarrow> Inl e
      | Inr (key, r1) \<Rightarrow>
          (case readValue rt depth r1 of
             Inl e \<Rightarrow> Inl e
           | Inr (v, r2) \<Rightarrow> readEntries rt depth n (assign m key v) r2))"

section \<open>protocol/Packet.ts: parse\<close>

text \<open>
  \<open>parse\<close>, with the stack depth left for \<open>readMap\<close>. The five header bytes
  are read at the offsets 0 to 4, where \<open>readByte\<close> either throws or returns a byte:
  the \<open>None\<close> cases of the flags and of the opcode cannot occur.
\<close>

definition parse :: "runtime \<Rightarrow> nat \<Rightarrow> byte list \<Rightarrow> error + ParsedPacket" where
  "parse rt depth buf =
     (case readByte (new_ProtocolReader buf) of Inl e \<Rightarrow> Inl e | Inr (magic1, r1) \<Rightarrow>
      case readByte r1 of Inl e \<Rightarrow> Inl e | Inr (magic2, r2) \<Rightarrow>
      if magic1 \<noteq> Some 0x42 \<or> magic2 \<noteq> Some 0x4e then Inl InvalidMagic else
      case readByte r2 of Inl e \<Rightarrow> Inl e | Inr (version, r3) \<Rightarrow>
      if version \<noteq> Some 0x01 then Inl (UnsupportedVersion version) else
      case readByte r3 of Inl e \<Rightarrow> Inl e | Inr (flags, r4) \<Rightarrow>
      let isEnc = ((case flags of None \<Rightarrow> 0 | Some f \<Rightarrow> f) AND 0x01 \<noteq> 0) in
      case readByte r4 of Inl e \<Rightarrow> Inl e | Inr (opc, r5) \<Rightarrow>
      case readVarInt r5 of Inl e \<Rightarrow> Inl e | Inr (payloadLength, r6) \<Rightarrow>
      case read r6 payloadLength of Inl e \<Rightarrow> Inl e | Inr (payload0, r7) \<Rightarrow>
      let payload = (if isEnc then decrypt default_key payload0 else payload0) in
      case readByte r7 of Inl e \<Rightarrow> Inl e | Inr (checksum, r8) \<Rightarrow>
      let dataToVerify = slice buf 0 (int (length buf) - 1) in
      if \<not> verify dataToVerify (map_option uint checksum) then Inl ChecksumMismatch else
      case readMap rt depth (new_ProtocolReader payload) of Inl e \<Rightarrow> Inl e | Inr (dat, r9) \<Rightarrow>
      Inr \<lparr>opcode = (case opc of None \<Rightarrow> 0 | Some b \<Rightarrow> uint b), data = dat, isEncrypted = isEnc\<rparr>)"

section \<open>websocket-bridge.ts: the TCP to WebSocket direction\<close>

text \<open>
  The state of one bridged session that the \<open>'data'\<close> handler of the TCP socket uses:
  the receive buffer, whether the WebSocket is open, and the envelopes
  \<open>{opcode, data}\<close> sent to it so far (each is sent as its JSON text).
\<close>

record Bridge =
  tcpBuffer :: "byte list"
  wsOpen :: bool
  wsSent :: "(int \<times> PacketData) list"

text \<open>
  The \<open>while (tcpBuffer.length >= 6)\<close> loop. Every error other than
  \<open>'Buffer underflow'\<close> empties the buffer, as a parsed packet does.
\<close>

function bridge_loop :: "runtime \<Rightarrow> nat \<Rightarrow> Bridge \<Rightarrow> Bridge" where
  "bridge_loop rt depth b =
     (if length (tcpBuffer b) \<ge> 6 then
        (case parse rt depth (tcpBuffer b) of
           Inr packet \<Rightarrow>
             bridge_loop rt depth
               (b\<lparr>wsSent := (if wsOpen b then wsSent b @ [(opcode packet, data packet)]
                              else wsSent b),
                  tcpBuffer := []\<rparr>)
         | Inl e \<Rightarrow> (if e = Underflow then b else b\<lparr>tcpBuffer := []\<rparr>))
      else b)"
  by pat_completeness auto
termination
  by (relation "measure (\<lambda>(rt, depth, b). length (tcpBuffer b))") auto

declare bridge_loop.simps [simp del]

definition onData :: "runtime \<Rightarrow> nat \<Rightarrow> byte list \<Rightarrow> Bridge \<Rightarrow> Bridge" where
  "onData rt depth dat b = bridge_loop rt depth (b\<lparr>tcpBuffer := tcpBuffer b @ dat\<rparr>)"

section \<open>websocket/nyx-ws.ts: frames\<close>

datatype OpCode = CONTINUATION | TEXT | BINARY | CLOSE | PING | PONG

fun OpCode_val :: "OpCode \<Rightarrow> nat" where
  "OpCode_val CONTINUATION = 0x0"
| "OpCode_val TEXT = 0x1"
| "OpCode_val BINARY = 0x2"
| "OpCode_val CLOSE = 0x8"
| "OpCode_val PING = 0x9"
| "OpCode_val PONG = 0xa"

datatype SocketMode = TCP | WEBSOCKET

record Frame =
  frame_opcode :: nat
  frame_payload :: "byte list"

text \<open>
  The masking loop, \<open>payload[i] ^ maskingKey[i % 4]\<close>, of \<open>sendFrame\<close> and of
  \<open>handleData\<close>.
\<close>

fun xor_mask :: "byte list \<Rightarrow> nat \<Rightarrow> byte list \<Rightarrow> byte list" where
  "xor_mask maskingKey i [] = []"
| "xor_mask maskingKey i (b # bs) =
     (b XOR maskingKey ! (i mod 4)) # xor_mask maskingKey (Suc i) bs"

text \<open>
  The frame that \<open>sendFrame\<close> builds and writes. \<open>maskingKey\<close> stands for the four
  bytes of \<open>crypto.randomBytes(4)\<close>, drawn when \<open>masked\<close> is true.
  \<open>writeUInt32BE(payloadLength, 6)\<close> throws a \<open>RangeError\<close> on a length of
  \<open>2 ^ 32\<close> or more.
\<close>

definition buildFrame :: "OpCode \<Rightarrow> byte list \<Rightarrow> bool \<Rightarrow> byte list \<Rightarrow> error + byte list" where
  "buildFrame opc payload masked maskingKey =
     (let payloadLength = length payload;
          byte0 = (0x80 OR of_nat (OpCode_val opc) :: byte);
          maskBit = (if masked then 0x80 else 0 :: byte);
          body = (if masked then maskingKey @ xor_mask maskingKey 0 payload else payload)
      in if payloadLength < 126 then
           Inr ([byte0, maskBit OR of_nat payloadLength] @ body)
         else if payloadLength < 65536 then
           Inr ([byte0, maskBit OR 126] @ be16 (of_nat payloadLength) @ body)
         else if payloadLength \<ge> 2 ^ 32 then Inl OutOfRange
         else Inr ([byte0, maskBit OR 127] @ be32 0 @ be32 (of_nat payloadLength) @ body))"

text \<open>
  One pass of the \<open>while\<close> loop of \<open>handleData\<close>, up to the call of
  \<open>handleFrame\<close>: the frame at the head of the buffer, as \<open>(fin, opcode, payload)\<close>,
  and the bytes after it; \<open>None\<close> where the loop ends or returns because the frame is
  not complete. \<open>high * 0x100000000 + low\<close> is exact below \<open>2 ^ 53\<close>, and from there on
  exceeds every buffer length, rounded or not.
\<close>

definition parseFrame :: "byte list \<Rightarrow> (bool \<times> nat \<times> byte list \<times> byte list) option" where
  "parseFrame buf =
     (if length buf < 2 then None
      else
        let byte1 = buf ! 0;
            byte2 = buf ! 1;
            fin = (byte1 AND 0x80 = 0x80);
            opc = unat (byte1 AND 0x0f);
            masked = (byte2 AND 0x80 = 0x80);
            len7 = unat (byte2 AND 0x7f)
        in if len7 = 126 \<and> length buf < 4 then None
           else if len7 = 127 \<and> length buf < 10 then None
           else
             let payloadLength =
                   (if len7 = 126 then unat (word_be (bytes_at buf 2 2) :: 16 word)
                    else if len7 = 127 then
                      unat (word_be (bytes_at buf 2 4) :: 32 word) * 0x100000000
                        + unat (word_be (bytes_at buf 6 4) :: 32 word)
                    else len7);
                 offset0 = (if len7 = 126 then 4 else if len7 = 127 then 10 else 2);
                 maskingKey = take 4 (drop offset0 buf);
                 off = (if masked then offset0 + 4 else offset0)
             in if length buf < off + payloadLength then None
                else
                  let payload0 = take payloadLength (drop off buf);
                      payload = (if masked then xor_mask maskingKey 0 payload0 else payload0)
                  in Some (fin, opc, payload, drop (off + payloadLength) buf))"

section \<open>websocket/nyx-ws.ts: the server-side connection\<close>

text \<open>
  What a connection emits to its listeners, in order. A text message is
  \<open>payload.toString('utf8')\<close>, kept as its UTF-8 bytes like every string here.
\<close>

datatype message = Text string | Binary "byte list"

datatype event = Message message | PingEvent | PongEvent

text \<open>
  \<open>NyxWSConnection\<close> with the fields it inherits from \<open>SocketContainer\<close> and
  \<open>NetSocket\<close>. The underlying \<open>net.Socket\<close> is the list of chunks written to it and
  two flags, for \<open>end()\<close> and \<open>destroy()\<close>.
\<close>

record NyxWSConnection =
  mode :: SocketMode
  wsbuffer :: "byte list"
  fragments :: "Frame list"
  isAlive :: bool
  emitted :: "event list"
  written :: "byte list list"
  ended :: bool
  destroyed :: bool

definition new_NyxWSConnection :: "SocketMode \<Rightarrow> NyxWSConnection" where
  "new_NyxWSConnection m =
     \<lparr>mode = m, wsbuffer = [], fragments = [], isAlive = True, emitted = [], written = [],
      ended = False, destroyed = False\<rparr>"

definition emit :: "event \<Rightarrow> NyxWSConnection \<Rightarrow> NyxWSConnection" where
  "emit ev c = c\<lparr>emitted := emitted c @ [ev]\<rparr>"

definition socket_write :: "byte list \<Rightarrow> NyxWSConnection \<Rightarrow> NyxWSConnection" where
  "socket_write chunk c = c\<lparr>written := written c @ [chunk]\<rparr>"

definition sendFrame ::
  "OpCode \<Rightarrow> byte list \<Rightarrow> bool \<Rightarrow> byte list \<Rightarrow> NyxWSConnection \<Rightarrow> error + NyxWSConnection" where
  "sendFrame opc payload masked maskingKey c =
     (case buildFrame opc payload masked maskingKey of
        Inl e \<Rightarrow> Inl e
      | Inr frame \<Rightarrow> Inr (socket_write frame c))"

text \<open>\<open>send\<close>: the data is a string or a buffer; the server side never masks.\<close>

definition send :: "message \<Rightarrow> NyxWSConnection \<Rightarrow> error + NyxWSConnection" where
  "send dat c =
     (if mode c = TCP then
        Inr (socket_write (case dat of Text str \<Rightarrow> utf8 str | Binary buf \<Rightarrow> buf) c)
      else
        (case dat of
           Text str \<Rightarrow> sendFrame TEXT (utf8 str) False [] c
         | Binary buf \<Rightarrow> sendFrame BINARY buf False [] c))"

definition ping :: "NyxWSConnection \<Rightarrow> error + NyxWSConnection" where
  "ping c = (if mode c = WEBSOCKET then sendFrame PING [] False [] c else Inr c)"

text \<open>
  \<open>close(code, reason)\<close>: \<open>writeUInt16BE(code, 0)\<close> throws unless the code fits 16
  bits.
\<close>

definition close :: "int \<Rightarrow> string \<Rightarrow> NyxWSConnection \<Rightarrow> error + NyxWSConnection" where
  "close code reason c =
     (if mode c = WEBSOCKET then
        if code < 0 \<or> code > 65535 then Inl OutOfRange
        else
          (case sendFrame CLOSE (be16 (word_of_int code) @ utf8 reason) False [] c of
             Inl e \<Rightarrow> Inl e
           | Inr c' \<Rightarrow> Inr (c'\<lparr>ended := True\<rparr>))
      else Inr (c\<lparr>ended := True\<rparr>))"

definition destroy :: "NyxWSConnection \<Rightarrow> NyxWSConnection" where
  "destroy c = c\<lparr>destroyed := True\<rparr>"

definition emitMessage :: "nat \<Rightarrow> byte list \<Rightarrow> NyxWSConnection \<Rightarrow> NyxWSConnection" where
  "emitMessage opc payload c =
     (if opc = OpCode_val TEXT
      then emit (Message (Text (map (\<lambda>b. char_of (unat b)) payload))) c
      else emit (Message (Binary payload)) c)"

definition handleCloseFrame :: "NyxWSConnection \<Rightarrow> error + NyxWSConnection" where
  "handleCloseFrame c = close 1000 [] c"

definition handlePing :: "byte list \<Rightarrow> NyxWSConnection \<Rightarrow> error + NyxWSConnection" where
  "handlePing payload c =
     (case sendFrame PONG payload False [] c of
        Inl e \<Rightarrow> Inl e
      | Inr c' \<Rightarrow> Inr (emit PingEvent c'))"

definition handlePong :: "NyxWSConnection \<Rightarrow> NyxWSConnection" where
  "handlePong c = emit PongEvent (c\<lparr>isAlive := True\<rparr>)"

definition handleFrame ::
  "bool \<Rightarrow> nat \<Rightarrow> byte list \<Rightarrow> NyxWSConnection \<Rightarrow> error + NyxWSConnection" where
  "handleFrame fin opc payload c =
     (if opc = OpCode_val TEXT \<or> opc = OpCode_val BINARY then
        if \<not> fin then
          Inr (c\<lparr>fragments := fragments c @ [\<lparr>frame_opcode = opc, frame_payload = payload\<rparr>]\<rparr>)
        else if length (fragments c) > 0 then
          let frags = fragments c @ [\<lparr>frame_opcode = opc, frame_payload = payload\<rparr>];
              fullPayload = concat (map frame_payload frags)
          in Inr (emitMessage opc fullPayload (c\<lparr>fragments := []\<rparr>))
        else Inr (emitMessage opc payload c)
      else if opc = OpCode_val CONTINUATION then
        let frags = fragments c @ [\<lparr>frame_opcode = opc, frame_payload = payload\<rparr>]
        in if fin then
             let fullPayload = concat (map frame_payload frags);
                 originalOpcode = frame_opcode (frags ! 0)
             in Inr (emitMessage originalOpcode fullPayload (c\<lparr>fragments := []\<rparr>))
           else Inr (c\<lparr>fragments := frags\<rparr>)
      else if opc = OpCode_val CLOSE then handleCloseFrame c
      else if opc = OpCode_val PING then handlePing payload c
      else if opc = OpCode_val PONG then Inr (handlePong c)
      else Inr c)"

lemma sendFrame_wsbuffer:
  "sendFrame opc payload masked k c = Inr c' \<Longrightarrow> wsbuffer c' = wsbuffer c"
  by (auto simp add: sendFrame_def socket_write_def split: sum.splits)

lemma handleFrame_wsbuffer:
  "handleFrame fin opc payload c = Inr c' \<Longrightarrow> wsbuffer c' = wsbuffer c"
  by (auto simp add: handleFrame_def emitMessage_def emit_def handleCloseFrame_def close_def
        handlePing_def handlePong_def Let_def
        split: if_splits sum.splits dest: sendFrame_wsbuffer)

lemma parseFrame_shorter:
  "parseFrame buf = Some (fin, opc, payload, rest) \<Longrightarrow> length rest < length buf"
  by (auto simp add: parseFrame_def Let_def split: if_splits)

function handleData_loop :: "NyxWSConnection \<Rightarrow> error + NyxWSConnection" where
  "handleData_loop c =
     (case parseFrame (wsbuffer c) of
        None \<Rightarrow> Inr c
      | Some (fin, opc, payload, rest) \<Rightarrow>
          (case handleFrame fin opc payload (c\<lparr>wsbuffer := rest\<rparr>) of
             Inl e \<Rightarrow> Inl e
           | Inr c' \<Rightarrow> handleData_loop c'))"
  by pat_completeness auto
termination
proof (relation "measure (\<lambda>c. length (wsbuffer c))")
  show "wf (measure (\<lambda>c. length (wsbuffer c)))" by simp
next
  fix c :: NyxWSConnection and x2 fin y opc ya payload rest c'
  assume p: "parseFrame (wsbuffer c) = Some x2" "(fin, y) = x2" "(opc, ya) = y"
    "(payload, rest) = ya"
    and h: "handleFrame fin opc payload (c\<lparr>wsbuffer := rest\<rparr>) = Inr c'"
  from p have "parseFrame (wsbuffer c) = Some (fin, opc, payload, rest)" by simp
  then have "length rest < length (wsbuffer c)" by (rule parseFrame_shorter)
  moreover from h have "wsbuffer c' = rest" by (simp add: handleFrame_wsbuffer)
  ultimately show "(c', c) \<in> measure (\<lambda>c. length (wsbuffer c))" by simp
qed

declare handleData_loop.simps [simp del]

definition handleData :: "byte list \<Rightarrow> NyxWSConnection \<Rightarrow> error + NyxWSConnection" where
  "handleData dat c =
     (if mode c = TCP then Inr (emit (Message (Binary dat)) c)
      else handleData_loop (c\<lparr>wsbuffer := (if wsbuffer c = [] then dat else wsbuffer c @ dat)\<rparr>))"

section \<open>websocket/nyx-ws.ts: the liveness sweep of NyxWSServer\<close>

text \<open>
  The server holds its connections in a \<open>Set\<close> of objects: here a store from addresses
  to connections, and the tracked addresses in insertion order.
\<close>

record NyxWSServer =
  clients :: "nat list"
  conns :: "nat \<Rightarrow> NyxWSConnection"

text \<open>
  The callback of \<open>setInterval\<close> in \<open>listen\<close>. Deleting the current element during
  the \<open>for ... of\<close> loop leaves the rest of the iteration as it is.
\<close>

fun sweep_loop :: "nat list \<Rightarrow> NyxWSServer \<Rightarrow> error + NyxWSServer" where
  "sweep_loop [] s = Inr s"
| "sweep_loop (client # rest) s =
     (if \<not> isAlive (conns s client) then
        sweep_loop rest
          (s\<lparr>conns := (conns s)(client := destroy (conns s client)),
             clients := removeAll client (clients s)\<rparr>)
      else
        (case ping ((conns s client)\<lparr>isAlive := False\<rparr>) of
           Inl e \<Rightarrow> Inl e
         | Inr c' \<Rightarrow> sweep_loop rest (s\<lparr>conns := (conns s)(client := c')\<rparr>)))"

definition sweep :: "NyxWSServer \<Rightarrow> error + NyxWSServer" where
  "sweep s = sweep_loop (clients s) s"

text \<open>
  The steps of the liveness protocol: a tick of the ping timer, and a PONG frame arriving
  on the connection at an address.
\<close>

datatype action = Sweep | Pong nat

fun step :: "action \<Rightarrow> NyxWSServer \<Rightarrow> error + NyxWSServer" where
  "step Sweep s = sweep s"
| "step (Pong client) s = Inr (s\<lparr>conns := (conns s)(client := handlePong (conns s client))\<rparr>)"

fun run :: "action list \<Rightarrow> NyxWSServer \<Rightarrow> error + NyxWSServer" where
  "run [] s = Inr s"
| "run (a # as) s = (case step a s of Inl e \<Rightarrow> Inl e | Inr s' \<Rightarrow> run as s')"

text \<open>
  A runtime for evaluating the code on inputs that hold no floating-point number, where
  the conversions are never called.
\<close>

definition no_floats :: runtime where
  "no_floats = \<lparr>toFloat32 = (\<lambda>v. 0), fromFloat32 = (\<lambda>w. IntNum 0), fromFloat64 = (\<lambda>w. IntNum 0)\<rparr>"

section \<open>Checksum: properties\<close>

lemma and_255_int: "(x :: int) AND 0xff = x mod 256"
proof -
  have m: "(0xff :: int) = mask 8" by (simp add: mask_eq_exp_minus_1)
  have "x AND mask 8 = x mod 2 ^ 8"
    by (simp only: take_bit_eq_mask [symmetric] take_bit_eq_mod)
  then show ?thesis by (simp add: m)
qed

lemma calculate_loop_sum:
  "calculate_loop s bs = (if bs = [] then s else (s + sum_list (map uint bs)) mod 256)"
proof (induction bs arbitrary: s)
  case Nil
  then show ?case by simp
next
  case (Cons b bs)
  show ?case
    by (simp add: Cons.IH and_255_int mod_add_left_eq add.assoc)
qed

lemma xor_170_bound:
  assumes "0 \<le> (x :: int)" and "x < 256"
  shows "0 \<le> x XOR 0xaa \<and> x XOR 0xaa < 256"
proof -
  have "x XOR 0xaa < 2 ^ 8"
    using assms by (intro XOR_upper) simp_all
  then show ?thesis using assms by simp
qed

lemma calculate_sum: "calculate bs = (sum_list (map uint bs) mod 256) XOR 0xaa"
  by (simp add: calculate_def calculate_loop_sum)

lemma calculate_range: "0 \<le> calculate bs \<and> calculate bs < 256"
  unfolding calculate_sum by (rule xor_170_bound) simp_all

lemma sum_list_uint_update:
  "i < length bs \<Longrightarrow>
   sum_list (map uint (bs[i := v])) = sum_list (map uint bs) - uint (bs ! i) + uint v"
proof (induction bs arbitrary: i)
  case Nil
  then show ?case by simp
next
  case (Cons b bs)
  then show ?case by (cases i) simp_all
qed

lemma calculate_update_neq:
  fixes v :: byte
  assumes "i < length bs" and "v \<noteq> bs ! i"
  shows "calculate (bs[i := v]) \<noteq> calculate bs"
proof
  assume eq: "calculate (bs[i := v]) = calculate bs"
  let ?S = "sum_list (map uint bs)"
  have "((?S - uint (bs ! i) + uint v) mod 256 XOR 0xaa) XOR 0xaa = (?S mod 256 XOR 0xaa) XOR 0xaa"
    using eq assms(1) by (simp add: calculate_sum sum_list_uint_update)
  then have "(?S - uint (bs ! i) + uint v) mod 256 = ?S mod 256"
    by (simp only: xor.assoc xor_self_eq xor.right_neutral)
  then have "256 dvd (?S - uint (bs ! i) + uint v) - ?S"
    by (simp only: mod_eq_dvd_iff)
  then have "256 dvd (uint v - uint (bs ! i))"
    by (simp add: algebra_simps)
  moreover have "\<bar>uint v - uint (bs ! i)\<bar> < 256"
  proof -
    have "0 \<le> uint v" and "0 \<le> uint (bs ! i)" by simp_all
    moreover have "uint v < 256" and "uint (bs ! i) < 256"
      using uint_lt2p [of v] uint_lt2p [of "bs ! i"] by simp_all
    ultimately show ?thesis by linarith
  qed
  ultimately have "uint v - uint (bs ! i) = 0"
    using zdvd_not_zless [of "\<bar>uint v - uint (bs ! i)\<bar>" 256] by fastforce
  then show False using assms(2) by (simp add: word_uint_eq_iff)
qed

lemma writeByte_calculate: "writeByte (calculate bs) = [word_of_int (calculate bs)]"
  using calculate_range [of bs] by (simp add: writeByte_def and_255_int)

lemma uint_checksum_byte: "uint (word_of_int (calculate bs) :: byte) = calculate bs"
  using calculate_range [of bs] by (simp add: uint_word_of_int)

lemma create_trailer:
  "\<exists>body. create rt opc dat enc = body @ [word_of_int (calculate body)]"
  by (simp add: create_def Let_def writeByte_calculate del: append_assoc
        flip: append_assoc)

lemma corrupted_trailer_mismatch:
  fixes v :: byte
  assumes "p = body @ [word_of_int (calculate body)]"
    and "i < length p" and "v \<noteq> p ! i"
  shows "\<not> verify (take (length (p[i := v]) - 1) (p[i := v]))
           (Some (uint (p[i := v] ! (length (p[i := v]) - 1))))"
proof (cases "i < length body")
  case True
  then have upd: "p[i := v] = body[i := v] @ [word_of_int (calculate body)]"
    using assms(1) by (simp add: list_update_append)
  have "v \<noteq> body ! i" using assms(1,3) True by (simp add: nth_append)
  then have "calculate (body[i := v]) \<noteq> calculate body"
    using True by (intro calculate_update_neq)
  then show ?thesis
    by (simp add: upd verify_def nth_append uint_checksum_byte)
next
  case False
  then have i: "i = length body" using assms(1,2) by simp
  then have upd: "p[i := v] = body @ [v]"
    using assms(1) by simp
  have "v \<noteq> word_of_int (calculate body)" using assms(1,3) i by simp
  then have "uint v \<noteq> uint (word_of_int (calculate body) :: byte)"
    by (simp add: word_uint_eq_iff)
  then have "uint v \<noteq> calculate body"
    by (simp add: uint_checksum_byte)
  then show ?thesis
    by (simp add: upd verify_def)
qed

text \<open>
  C8. \<open>calculate\<close> is the sum of the bytes modulo 256, XORed with 0xAA. In a packet built
  by \<open>create\<close>, replacing any one byte by a different value makes \<open>verify\<close> false for
  the packet's trailing checksum byte against the bytes before it
  (\<open>buffer.slice(0, buffer.length - 1)\<close>).
\<close>

theorem checksum_detects_single_byte:
  fixes v :: byte
  shows "calculate bytes = (sum_list (map uint bytes) mod 256) XOR 0xaa
    \<and> (i < length (create rt opc dat enc) \<and> v \<noteq> create rt opc dat enc ! i \<longrightarrow>
         \<not> verify (take (length ((create rt opc dat enc)[i := v]) - 1) ((create rt opc dat enc)[i := v]))
             (Some (uint ((create rt opc dat enc)[i := v] ! (length ((create rt opc dat enc)[i := v]) - 1)))))"
proof -
  obtain body where "create rt opc dat enc = body @ [word_of_int (calculate body)]"
    using create_trailer by blast
  then show ?thesis
    using corrupted_trailer_mismatch [of "create rt opc dat enc" body i v]
    by (simp add: calculate_sum)
qed

theorem checksum_detects_single_byte_witness:
  "4 < length (create no_floats 0x33 [] False)
   \<and> (0x34 :: byte) \<noteq> create no_floats 0x33 [] False ! 4
   \<and> (create no_floats 0x33 [] False)[4 := 0x34] = [0x42, 0x4e, 0x01, 0x00, 0x34, 0x01, 0x00, 0x6f]
   \<and> \<not> verify [0x42, 0x4e, 0x01, 0x00, 0x34, 0x01, 0x00] (Some 0x6f)"
proof -
  have c: "create no_floats 0x33 [] False = [0x42, 0x4e, 0x01, 0x00, 0x33, 0x01, 0x00, 0x6f]"
    by code_simp
  show ?thesis
    using checksum_detects_single_byte
      [where i = 4 and v = "0x34" and rt = no_floats and opc = "0x33" and dat = "[]"
         and enc = False and bytes = "[]"]
    by (simp add: c)
qed

section \<open>WebSocket frames: properties\<close>

lemma fin_bit: "((0x80 :: byte) OR x) AND 0x80 = 0x80"
  by (rule bit_word_eqI) (auto simp add: bit_simps)

lemma opcode_bits: "unat (((0x80 :: byte) OR of_nat (OpCode_val opc)) AND 0x0f) = OpCode_val opc"
  by (cases opc) simp_all

lemma of_nat_low7:
  assumes "n < 128"
  shows "(of_nat n :: byte) AND 0x7f = of_nat n" and "(of_nat n :: byte) AND 0x80 = 0"
proof -
  have m: "(0x7f :: byte) = mask 7" by (simp add: mask_eq_exp_minus_1)
  have "take_bit 7 n = n" using assms by (simp add: take_bit_nat_eq_self)
  then have "take_bit 7 (of_nat n :: byte) = of_nat n"
    by (metis of_nat_take_bit)
  then show a: "(of_nat n :: byte) AND 0x7f = of_nat n"
    by (simp add: m take_bit_eq_mask)
  have "(of_nat n :: byte) AND 0x80 = ((of_nat n :: byte) AND 0x7f) AND 0x80"
    by (simp only: a)
  also have "\<dots> = 0" by (simp add: and.assoc)
  finally show "(of_nat n :: byte) AND 0x80 = 0" .
qed

lemma len_bits:
  assumes "n < 128"
  shows "unat (((if masked then 0x80 else 0 :: byte) OR of_nat n) AND 0x7f) = n"
    and "(((if masked then 0x80 else 0 :: byte) OR of_nat n) AND 0x80 = 0x80) = masked"
  using assms of_nat_low7 [OF assms]
  by (simp_all add: bit.conj_disj_distrib2 unat_of_nat)

lemma word_be_be16: "word_be (be16 w) = w"
  unfolding word_be_def be16_def
  by (rule bit_word_eqI) (auto simp add: bit_simps)

lemma word_be_be32: "word_be (be32 w) = w"
  unfolding word_be_def be32_def
proof (rule bit_word_eqI)
  fix n
  assume "n < LENGTH(32)"
  then show "bit (foldl (\<lambda>acc b. push_bit 8 acc OR ucast b) (0 :: 32 word)
            [ucast (drop_bit 24 w) :: byte, ucast (drop_bit 16 w), ucast (drop_bit 8 w), ucast w]) n = bit w n"
    by (cases "n < 8"; cases "n < 16"; cases "n < 24") (auto simp add: bit_simps)
qed

lemma xor_mask_length: "length (xor_mask k i bs) = length bs"
  by (induction bs arbitrary: i) simp_all

lemma xor_mask_involution: "xor_mask k i (xor_mask k i bs) = bs"
  by (induction bs arbitrary: i) (simp_all add: xor.assoc)


lemma parseFrame_header:
  assumes "unat (b2 AND 0x7f) = len7"
    and "(b2 AND 0x80 = 0x80) = masked"
    and "length ext = (if len7 = 126 then 2 else if len7 = 127 then 8 else 0)"
    and "n = (if len7 = 126 then unat (word_be ext :: 16 word)
              else if len7 = 127 then unat (word_be (take 4 ext) :: 32 word) * 0x100000000
                     + unat (word_be (drop 4 ext) :: 32 word)
              else len7)"
    and "length key = (if masked then 4 else 0)"
    and "length body = n"
  shows "parseFrame (b1 # b2 # ext @ key @ body) =
           Some (b1 AND 0x80 = 0x80, unat (b1 AND 0x0f),
                 if masked then xor_mask key 0 body else body, [])"
proof (cases "len7 = 126")
  case True
  then have "bytes_at (b1 # b2 # ext @ key @ body) 2 2 = ext"
    using assms(3) by (simp add: bytes_at_def)
  then show ?thesis
    using assms True unfolding parseFrame_def Let_def by (cases masked) simp_all
next
  case False
  note not126 = this
  show ?thesis
  proof (cases "len7 = 127")
    case True
    then have "bytes_at (b1 # b2 # ext @ key @ body) 2 4 = take 4 ext"
      and "bytes_at (b1 # b2 # ext @ key @ body) 6 4 = drop 4 ext"
      using assms(3) by (simp_all add: bytes_at_def)
    then show ?thesis
      using assms True unfolding parseFrame_def Let_def by (cases masked) simp_all
  next
    case False
    then show ?thesis
      using assms not126 unfolding parseFrame_def Let_def by (cases masked) simp_all
  qed
qed

lemma buildFrame_shape:
  assumes "masked \<longrightarrow> length k = 4" and "buildFrame opc payload masked k = Inr frame"
  shows "\<exists>b2 ext len7.
           frame = (0x80 OR of_nat (OpCode_val opc)) # b2 # ext
                     @ (if masked then k else []) @ (if masked then xor_mask k 0 payload else payload)
         \<and> unat (b2 AND 0x7f) = len7 \<and> (b2 AND 0x80 = 0x80) = masked
         \<and> length ext = (if len7 = 126 then 2 else if len7 = 127 then 8 else 0)
         \<and> length payload = (if len7 = 126 then unat (word_be ext :: 16 word)
              else if len7 = 127 then unat (word_be (take 4 ext) :: 32 word) * 0x100000000
                     + unat (word_be (drop 4 ext) :: 32 word)
              else len7)"
proof -
  let ?n = "length payload"
  let ?m = "(if masked then 0x80 else 0 :: byte)"
  consider (small) "?n < 126" | (medium) "126 \<le> ?n" "?n < 65536"
    | (large) "65536 \<le> ?n" "?n < 2 ^ 32" | (huge) "2 ^ 32 \<le> ?n"
    by linarith
  then show ?thesis
  proof cases
    case small
    then have n: "?n < 128" by simp
    have "frame = (0x80 OR of_nat (OpCode_val opc)) # (?m OR of_nat ?n) # []
                     @ (if masked then k else []) @ (if masked then xor_mask k 0 payload else payload)"
      using assms(2) small by (auto simp add: buildFrame_def Let_def)
    moreover have "unat ((?m OR of_nat ?n) AND 0x7f) = ?n"
      and "((?m OR of_nat ?n) AND 0x80 = 0x80) = masked"
      using len_bits [OF n, of masked] by simp_all
    ultimately show ?thesis using small
      by (intro exI [of _ "?m OR of_nat ?n"] exI [of _ "[]"] exI [of _ ?n]) simp
  next
    case medium
    have "frame = (0x80 OR of_nat (OpCode_val opc)) # (?m OR 126) # be16 (of_nat ?n)
                     @ (if masked then k else []) @ (if masked then xor_mask k 0 payload else payload)"
      using assms(2) medium by (auto simp add: buildFrame_def Let_def)
    moreover have "unat ((?m OR 126) AND 0x7f) = 126"
      and "((?m OR 126) AND 0x80 = 0x80) = masked"
      by simp_all
    moreover have "unat (word_be (be16 (of_nat ?n)) :: 16 word) = ?n"
      using medium by (simp add: word_be_be16 unat_of_nat)
    moreover have "length (be16 (of_nat ?n)) = 2" by (simp add: be16_def)
    ultimately show ?thesis
      by (intro exI [of _ "?m OR 126"] exI [of _ "be16 (of_nat ?n)"] exI [of _ 126]) simp
  next
    case large
    have "frame = (0x80 OR of_nat (OpCode_val opc)) # (?m OR 127) # (be32 0 @ be32 (of_nat ?n))
                     @ (if masked then k else []) @ (if masked then xor_mask k 0 payload else payload)"
      using assms(2) large by (auto simp add: buildFrame_def Let_def)
    moreover have "unat ((?m OR 127) AND 0x7f) = 127"
      and "((?m OR 127) AND 0x80 = 0x80) = masked"
      by simp_all
    moreover have len: "length (be32 w) = 4" for w by (simp add: be32_def)
    moreover have "unat (word_be (be32 (of_nat ?n)) :: 32 word) = ?n"
      using large by (simp add: word_be_be32 unat_of_nat)
    moreover have "unat (word_be (be32 0) :: 32 word) = 0" by (simp add: word_be_be32)
    ultimately show ?thesis
      by (intro exI [of _ "?m OR 127"] exI [of _ "be32 0 @ be32 (of_nat ?n)"] exI [of _ 127])
         simp
  next
    case huge
    then have False using assms(2) by (simp add: buildFrame_def Let_def)
    then show ?thesis ..
  qed
qed

lemma parseFrame_buildFrame:
  assumes "masked \<longrightarrow> length k = 4" and "buildFrame opc payload masked k = Inr frame"
  shows "parseFrame frame = Some (True, OpCode_val opc, payload, [])"
proof -
  from buildFrame_shape [OF assms] obtain b2 ext len7 where
    f: "frame = (0x80 OR of_nat (OpCode_val opc)) # b2 # ext
                     @ (if masked then k else []) @ (if masked then xor_mask k 0 payload else payload)"
    and h: "unat (b2 AND 0x7f) = len7" "(b2 AND 0x80 = 0x80) = masked"
      "length ext = (if len7 = 126 then 2 else if len7 = 127 then 8 else 0)"
      "length payload = (if len7 = 126 then unat (word_be ext :: 16 word)
              else if len7 = 127 then unat (word_be (take 4 ext) :: 32 word) * 0x100000000
                     + unat (word_be (drop 4 ext) :: 32 word)
              else len7)"
    by blast
  have "parseFrame frame =
          Some ((0x80 OR of_nat (OpCode_val opc) :: byte) AND 0x80 = 0x80,
                unat ((0x80 OR of_nat (OpCode_val opc) :: byte) AND 0x0f),
                if masked then xor_mask (if masked then k else []) 0
                                 (if masked then xor_mask k 0 payload else payload)
                else (if masked then xor_mask k 0 payload else payload), [])"
    unfolding f
    by (rule parseFrame_header [OF h(1) h(2) h(3) h(4)])
       (use assms(1) in \<open>simp_all add: xor_mask_length\<close>)
  then show ?thesis
    by (simp add: fin_bit opcode_bits xor_mask_involution)
qed

text \<open>
  C4. For every opcode, mask flag, four-byte masking key and payload, the frame that
  \<open>sendFrame\<close> builds is parsed by the loop of \<open>handleData\<close> into the same opcode and
  payload, with FIN set and no byte left over; a frame is built for every payload shorter
  than \<open>2 ^ 32\<close> bytes (so for the sizes 0, 125, 126, 65535 and 65536); masking twice with
  the same key gives the payload back.
\<close>

theorem frame_roundtrip:
  "(masked \<longrightarrow> length maskingKey = 4) \<longrightarrow>
     (length payload < 2 ^ 32 \<longrightarrow> (\<exists>frame. buildFrame opc payload masked maskingKey = Inr frame))
   \<and> (\<forall>frame. buildFrame opc payload masked maskingKey = Inr frame \<longrightarrow>
          parseFrame frame = Some (True, OpCode_val opc, payload, []))
   \<and> xor_mask maskingKey 0 (xor_mask maskingKey 0 payload) = payload"
proof (intro impI conjI allI)
  assume "length payload < 2 ^ 32"
  then show "\<exists>frame. buildFrame opc payload masked maskingKey = Inr frame"
    by (simp add: buildFrame_def Let_def)
next
  fix frame
  assume "masked \<longrightarrow> length maskingKey = 4"
    and "buildFrame opc payload masked maskingKey = Inr frame"
  then show "parseFrame frame = Some (True, OpCode_val opc, payload, [])"
    by (rule parseFrame_buildFrame)
next
  show "xor_mask maskingKey 0 (xor_mask maskingKey 0 payload) = payload"
    by (rule xor_mask_involution)
qed

theorem frame_roundtrip_witness:
  "length [1, 2, 3, 4 :: byte] = 4
   \<and> length [0x61, 0x62 :: byte] < 2 ^ 32
   \<and> buildFrame TEXT [0x61, 0x62] True [1, 2, 3, 4] = Inr [0x81, 0x82, 1, 2, 3, 4, 0x60, 0x60]
   \<and> parseFrame [0x81, 0x82, 1, 2, 3, 4, 0x60, 0x60] = Some (True, 1, [0x61, 0x62], [])"
proof -
  have b: "buildFrame TEXT [0x61, 0x62] True [1, 2, 3, 4] = Inr [0x81, 0x82, 1, 2, 3, 4, 0x60, 0x60]"
    by (simp add: buildFrame_def)
  show ?thesis
    using frame_roundtrip [of True "[1, 2, 3, 4]" "[0x61, 0x62]" TEXT] b by simp
qed

text \<open>
  A chunk written to the socket is a final, non-continuation frame: its first byte has the
  FIN bit and an opcode other than 0.
\<close>

definition final_frame :: "byte list \<Rightarrow> bool" where
  "final_frame chunk = (chunk \<noteq> [] \<and> chunk ! 0 AND 0x80 = 0x80 \<and> chunk ! 0 AND 0x0f \<noteq> 0)"

lemma buildFrame_first_byte:
  "buildFrame opc payload masked k = Inr frame \<Longrightarrow>
   frame \<noteq> [] \<and> frame ! 0 = 0x80 OR of_nat (OpCode_val opc)"
  by (auto simp add: buildFrame_def Let_def split: if_splits)

lemma sendFrame_written:
  assumes "sendFrame opc payload masked k c = Inr c'" and "opc \<noteq> CONTINUATION"
  shows "\<exists>frame. written c' = written c @ [frame] \<and> final_frame frame"
proof -
  from assms(1) obtain frame where b: "buildFrame opc payload masked k = Inr frame"
    and c': "c' = socket_write frame c"
    by (auto simp add: sendFrame_def split: sum.splits)
  from buildFrame_first_byte [OF b] assms(2) have "final_frame frame"
    by (cases opc) (simp_all add: final_frame_def)
  with c' show ?thesis by (simp add: socket_write_def)
qed

lemma send_written:
  assumes "mode c = WEBSOCKET" and "send dat c = Inr c'"
  shows "\<exists>frame. written c' = written c @ [frame] \<and> final_frame frame"
  using assms by (cases dat) (auto simp add: send_def dest: sendFrame_written)

lemma ping_written:
  assumes "ping c = Inr c'"
  shows "\<exists>new. written c' = written c @ new \<and> list_all final_frame new"
proof (cases "mode c = WEBSOCKET")
  case True
  with assms obtain frame where "written c' = written c @ [frame]" "final_frame frame"
    by (auto simp add: ping_def dest: sendFrame_written)
  then show ?thesis by (intro exI [of _ "[frame]"]) simp
next
  case False
  with assms show ?thesis by (intro exI [of _ "[]"]) (simp add: ping_def)
qed

lemma close_written:
  assumes "close code reason c = Inr c'"
  shows "\<exists>new. written c' = written c @ new \<and> list_all final_frame new"
proof (cases "mode c = WEBSOCKET")
  case True
  with assms obtain c1 where s: "sendFrame CLOSE (be16 (word_of_int code) @ utf8 reason) False [] c = Inr c1"
    and c': "c' = c1\<lparr>ended := True\<rparr>"
    by (auto simp add: close_def split: if_splits sum.splits)
  from sendFrame_written [OF s] obtain frame where
    "written c1 = written c @ [frame]" "final_frame frame" by auto
  with c' show ?thesis by (intro exI [of _ "[frame]"]) simp
next
  case False
  with assms show ?thesis by (intro exI [of _ "[]"]) (auto simp add: close_def)
qed

lemma handleFrame_written:
  assumes "handleFrame fin opc payload c = Inr c'"
  shows "\<exists>new. written c' = written c @ new \<and> list_all final_frame new"
proof -
  consider (data) "opc = OpCode_val TEXT \<or> opc = OpCode_val BINARY \<or> opc = OpCode_val CONTINUATION"
    | (close) "opc = OpCode_val CLOSE" | (ping) "opc = OpCode_val PING"
    | (other) "opc \<noteq> OpCode_val TEXT" "opc \<noteq> OpCode_val BINARY" "opc \<noteq> OpCode_val CONTINUATION"
        "opc \<noteq> OpCode_val CLOSE" "opc \<noteq> OpCode_val PING"
    by blast
  then show ?thesis
  proof cases
    case data
    with assms have "written c' = written c"
      by (auto simp add: handleFrame_def emitMessage_def emit_def Let_def split: if_splits)
    then show ?thesis by (intro exI [of _ "[]"]) simp
  next
    case close
    with assms have "close 1000 [] c = Inr c'"
      by (simp add: handleFrame_def handleCloseFrame_def)
    then show ?thesis by (rule close_written)
  next
    case ping
    with assms obtain c1 where s: "sendFrame PONG payload False [] c = Inr c1"
      and c': "c' = emit PingEvent c1"
      by (auto simp add: handleFrame_def handlePing_def split: sum.splits)
    from sendFrame_written [OF s] obtain frame where
      "written c1 = written c @ [frame]" "final_frame frame" by auto
    with c' show ?thesis by (intro exI [of _ "[frame]"]) (simp add: emit_def)
  next
    case other
    with assms have "written c' = written c"
      by (auto simp add: handleFrame_def handlePong_def emit_def split: if_splits)
    then show ?thesis by (intro exI [of _ "[]"]) simp
  qed
qed

text \<open>
  C9. Every frame that \<open>sendFrame\<close> builds starts with the byte \<open>0x80 OR opcode\<close>, so
  has the FIN bit set. What \<open>send\<close> (in WebSocket mode), \<open>ping\<close>, \<open>close\<close> and
  \<open>handleFrame\<close> (the PONG and CLOSE replies) write to the socket are such frames with
  an opcode other than CONTINUATION, although \<open>handleFrame\<close> accepts fragments.
\<close>

theorem outgoing_frames_final:
  "(buildFrame opc payload masked maskingKey = Inr frame \<longrightarrow>
      frame \<noteq> [] \<and> frame ! 0 = 0x80 OR of_nat (OpCode_val opc) \<and> frame ! 0 AND 0x80 = 0x80)
   \<and> (mode c = WEBSOCKET \<and> send dat c = Inr c' \<longrightarrow>
        (\<exists>frame. written c' = written c @ [frame] \<and> final_frame frame))
   \<and> (ping c = Inr c' \<or> close code reason c = Inr c' \<or> handleFrame fin opn pl c = Inr c' \<longrightarrow>
        (\<exists>new. written c' = written c @ new \<and> list_all final_frame new))"
proof -
  have "frame \<noteq> [] \<and> frame ! 0 = 0x80 OR of_nat (OpCode_val opc) \<and> frame ! 0 AND 0x80 = 0x80"
    if "buildFrame opc payload masked maskingKey = Inr frame"
    using buildFrame_first_byte [OF that] by (simp add: fin_bit)
  moreover have "\<exists>frame. written c' = written c @ [frame] \<and> final_frame frame"
    if "mode c = WEBSOCKET \<and> send dat c = Inr c'"
    using that by (auto dest: send_written)
  moreover have "\<exists>new. written c' = written c @ new \<and> list_all final_frame new"
    if "ping c = Inr c' \<or> close code reason c = Inr c' \<or> handleFrame fin opn pl c = Inr c'"
    using that ping_written close_written handleFrame_written by blast
  ultimately show ?thesis by blast
qed

theorem outgoing_frames_final_witness:
  "buildFrame PING [] False [] = Inr [0x89, 0]
   \<and> ([0x89, 0 :: byte] \<noteq> [] \<and> [0x89, 0 :: byte] ! 0 = 0x80 OR of_nat (OpCode_val PING)
        \<and> [0x89, 0 :: byte] ! 0 AND 0x80 = 0x80)
   \<and> mode (new_NyxWSConnection WEBSOCKET) = WEBSOCKET
   \<and> send (Text ''hi'') (new_NyxWSConnection WEBSOCKET)
        = Inr ((new_NyxWSConnection WEBSOCKET)\<lparr>written := [[0x81, 2, 0x68, 0x69]]\<rparr>)
   \<and> ping (new_NyxWSConnection WEBSOCKET)
        = Inr ((new_NyxWSConnection WEBSOCKET)\<lparr>written := [[0x89, 0]]\<rparr>)
   \<and> (\<exists>frame. written ((new_NyxWSConnection WEBSOCKET)\<lparr>written := [[0x81, 2, 0x68, 0x69]]\<rparr>)
          = written (new_NyxWSConnection WEBSOCKET) @ [frame] \<and> final_frame frame)"
proof -
  have b: "buildFrame PING [] False [] = Inr [0x89, 0]"
    by (simp add: buildFrame_def)
  have s: "send (Text ''hi'') (new_NyxWSConnection WEBSOCKET)
        = Inr ((new_NyxWSConnection WEBSOCKET)\<lparr>written := [[0x81, 2, 0x68, 0x69]]\<rparr>)"
    by (simp add: send_def sendFrame_def buildFrame_def socket_write_def utf8_def
          new_NyxWSConnection_def)
  have p: "ping (new_NyxWSConnection WEBSOCKET)
        = Inr ((new_NyxWSConnection WEBSOCKET)\<lparr>written := [[0x89, 0]]\<rparr>)"
    by (simp add: ping_def sendFrame_def buildFrame_def socket_write_def new_NyxWSConnection_def)
  have m: "mode (new_NyxWSConnection WEBSOCKET) = WEBSOCKET"
    by (simp add: new_NyxWSConnection_def)
  show ?thesis
    using outgoing_frames_final [of PING "[]" False "[]" "[0x89, 0]"
        "new_NyxWSConnection WEBSOCKET" "Text ''hi''"
        "(new_NyxWSConnection WEBSOCKET)\<lparr>written := [[0x81, 2, 0x68, 0x69]]\<rparr>"]
      b s p m
    by simp
qed

section \<open>Fragment reassembly: properties\<close>

lemma char_of_byte: "char_of (unat (of_char c :: byte)) = c"
proof -
  have "(of_char c :: byte) = of_nat (of_char c)" by (simp add: of_nat_of_char)
  then have "unat (of_char c :: byte) = of_char c mod 256"
    by (simp add: unat_of_nat)
  then show ?thesis by simp
qed

lemma toString_utf8: "map (\<lambda>b. char_of (unat b)) (utf8 s) = s"
  by (induction s) (simp_all add: utf8_def char_of_byte)

text \<open>
  C5. From an empty fragment accumulator, the frames TEXT(fin=false, "ab"),
  CONTINUATION(fin=false, "cd"), CONTINUATION(fin=true, "ef") are handled without error;
  the first two emit nothing, and the third emits exactly one message, the text "abcdef"
  (tagged by the opcode of the opening frame), and leaves the accumulator empty.
\<close>

theorem fragmentation_reassembly:
  "\<exists>c1 c2.
     handleFrame False (OpCode_val TEXT) (utf8 ''ab'') (c\<lparr>fragments := []\<rparr>) = Inr c1
     \<and> emitted c1 = emitted c
     \<and> handleFrame False (OpCode_val CONTINUATION) (utf8 ''cd'') c1 = Inr c2
     \<and> emitted c2 = emitted c
     \<and> handleFrame True (OpCode_val CONTINUATION) (utf8 ''ef'') c2
         = Inr (c\<lparr>fragments := [], emitted := emitted c @ [Message (Text ''abcdef'')]\<rparr>)"
proof -
  have "map (\<lambda>b. char_of (unat b)) (utf8 ''ab'' @ utf8 ''cd'' @ utf8 ''ef'') = ''abcdef''"
    by (simp only: map_append toString_utf8) simp
  then show ?thesis
    by (simp add: handleFrame_def emitMessage_def emit_def Let_def)
qed

text \<open>
  C10. A TEXT or BINARY frame with fin=true that arrives while the accumulator is not
  empty is appended to it; exactly one message is emitted, whose payload is all the
  accumulated payloads in arrival order followed by this one, and whose type is this
  frame's opcode, not the opening frame's; the accumulator is cleared.
\<close>

theorem final_data_frame_flushes:
  "fragments c \<noteq> [] \<and> (opc = OpCode_val TEXT \<or> opc = OpCode_val BINARY) \<longrightarrow>
     handleFrame True opc payload c
       = Inr (c\<lparr>fragments := [],
               emitted := emitted c @
                 [Message (if opc = OpCode_val TEXT
                           then Text (map (\<lambda>b. char_of (unat b))
                                  (concat (map frame_payload (fragments c)) @ payload))
                           else Binary (concat (map frame_payload (fragments c)) @ payload))]\<rparr>)"
  by (auto simp add: handleFrame_def emitMessage_def emit_def Let_def)

theorem final_data_frame_flushes_witness:
  "fragments ((new_NyxWSConnection WEBSOCKET)
       \<lparr>fragments := [\<lparr>frame_opcode = OpCode_val BINARY, frame_payload = utf8 ''a''\<rparr>]\<rparr>) \<noteq> []
   \<and> handleFrame True (OpCode_val TEXT) (utf8 ''b'')
        ((new_NyxWSConnection WEBSOCKET)
           \<lparr>fragments := [\<lparr>frame_opcode = OpCode_val BINARY, frame_payload = utf8 ''a''\<rparr>]\<rparr>)
       = Inr ((new_NyxWSConnection WEBSOCKET)\<lparr>emitted := [Message (Text ''ab'')]\<rparr>)"
  using final_data_frame_flushes
    [of "(new_NyxWSConnection WEBSOCKET)
           \<lparr>fragments := [\<lparr>frame_opcode = OpCode_val BINARY, frame_payload = utf8 ''a''\<rparr>]\<rparr>"
        "OpCode_val TEXT" "utf8 ''b''"]
  by (simp add: new_NyxWSConnection_def toString_utf8)

section \<open>Liveness sweep: properties\<close>

text \<open>What a sweep does to a connection that is alive: clear the flag, then \<open>ping()\<close>.\<close>

definition pinged :: "NyxWSConnection \<Rightarrow> NyxWSConnection" where
  "pinged c = (if mode c = WEBSOCKET then socket_write [0x89, 0] (c\<lparr>isAlive := False\<rparr>)
               else c\<lparr>isAlive := False\<rparr>)"

lemma ping_pinged: "ping (c\<lparr>isAlive := False\<rparr>) = Inr (pinged c)"
  by (simp add: ping_def pinged_def sendFrame_def buildFrame_def)

lemma sweep_loop_effect:
  "distinct cs \<Longrightarrow>
   \<exists>s'. sweep_loop cs s = Inr s'
     \<and> (\<forall>c. conns s' c =
            (if c \<in> set cs
             then (if isAlive (conns s c) then pinged (conns s c) else destroy (conns s c))
             else conns s c))
     \<and> clients s' = filter (\<lambda>c. c \<notin> set cs \<or> isAlive (conns s c)) (clients s)"
proof (induction cs arbitrary: s)
  case Nil
  then show ?case by simp
next
  case (Cons client rest)
  then have d: "distinct rest" and n: "client \<notin> set rest" by simp_all
  show ?case
  proof (cases "isAlive (conns s client)")
    case True
    let ?s1 = "s\<lparr>conns := (conns s)(client := pinged (conns s client))\<rparr>"
    from Cons.IH [OF d, of ?s1] obtain s' where
      r: "sweep_loop rest ?s1 = Inr s'"
      and c: "\<forall>c. conns s' c =
            (if c \<in> set rest
             then (if isAlive (conns ?s1 c) then pinged (conns ?s1 c) else destroy (conns ?s1 c))
             else conns ?s1 c)"
      and l: "clients s' = filter (\<lambda>c. c \<notin> set rest \<or> isAlive (conns ?s1 c)) (clients ?s1)"
      by blast
    have "sweep_loop (client # rest) s = Inr s'"
      using True r by (simp add: ping_pinged)
    moreover have "conns s' c =
            (if c \<in> set (client # rest)
             then (if isAlive (conns s c) then pinged (conns s c) else destroy (conns s c))
             else conns s c)" for c
      using c [rule_format, of c] n True by auto
    moreover have "clients s' = filter (\<lambda>c. c \<notin> set (client # rest) \<or> isAlive (conns s c)) (clients s)"
      unfolding l using n True by (auto intro!: filter_cong)
    ultimately show ?thesis by blast
  next
    case False
    let ?s1 = "s\<lparr>conns := (conns s)(client := destroy (conns s client)),
                  clients := removeAll client (clients s)\<rparr>"
    from Cons.IH [OF d, of ?s1] obtain s' where
      r: "sweep_loop rest ?s1 = Inr s'"
      and c: "\<forall>c. conns s' c =
            (if c \<in> set rest
             then (if isAlive (conns ?s1 c) then pinged (conns ?s1 c) else destroy (conns ?s1 c))
             else conns ?s1 c)"
      and l: "clients s' = filter (\<lambda>c. c \<notin> set rest \<or> isAlive (conns ?s1 c)) (clients ?s1)"
      by blast
    have "sweep_loop (client # rest) s = Inr s'"
      using False r by simp
    moreover have "conns s' c =
            (if c \<in> set (client # rest)
             then (if isAlive (conns s c) then pinged (conns s c) else destroy (conns s c))
             else conns s c)" for c
      using c [rule_format, of c] n False by auto
    moreover have "clients s' = filter (\<lambda>c. c \<notin> set (client # rest) \<or> isAlive (conns s c)) (clients s)"
      unfolding l using n False
      by (auto simp add: removeAll_filter_not_eq destroy_def intro!: filter_cong)
    ultimately show ?thesis by blast
  qed
qed

lemma sweep_effect:
  assumes "distinct (clients s)"
  shows "\<exists>s'. sweep s = Inr s'
     \<and> (\<forall>c \<in> set (clients s). conns s' c =
            (if isAlive (conns s c) then pinged (conns s c) else destroy (conns s c)))
     \<and> clients s' = filter (\<lambda>c. isAlive (conns s c)) (clients s)"
proof -
  from sweep_loop_effect [OF assms, of s] obtain s' where
    "sweep_loop (clients s) s = Inr s'"
    and c: "\<forall>c. conns s' c =
            (if c \<in> set (clients s)
             then (if isAlive (conns s c) then pinged (conns s c) else destroy (conns s c))
             else conns s c)"
    and l: "clients s' = filter (\<lambda>c. c \<notin> set (clients s) \<or> isAlive (conns s c)) (clients s)"
    by blast
  moreover from l have "clients s' = filter (\<lambda>c. isAlive (conns s c)) (clients s)"
    by (simp cong: filter_cong)
  ultimately show ?thesis by (auto simp add: sweep_def)
qed

lemma run_pongs:
  "Sweep \<notin> set acts \<Longrightarrow>
   \<exists>s'. run acts s = Inr s' \<and> clients s' = clients s
     \<and> (\<forall>c. isAlive (conns s' c) = (isAlive (conns s c) \<or> Pong c \<in> set acts)
           \<and> mode (conns s' c) = mode (conns s c)
           \<and> written (conns s' c) = written (conns s c)
           \<and> destroyed (conns s' c) = destroyed (conns s c))"
proof (induction acts arbitrary: s)
  case Nil
  then show ?case by simp
next
  case (Cons a acts)
  then obtain d where a: "a = Pong d" by (cases a) auto
  let ?s1 = "s\<lparr>conns := (conns s)(d := handlePong (conns s d))\<rparr>"
  from Cons have "Sweep \<notin> set acts" by simp
  from Cons.IH [OF this, of ?s1] obtain s' where
    "run acts ?s1 = Inr s'" "clients s' = clients ?s1"
    "\<forall>c. isAlive (conns s' c) = (isAlive (conns ?s1 c) \<or> Pong c \<in> set acts)
           \<and> mode (conns s' c) = mode (conns ?s1 c)
           \<and> written (conns s' c) = written (conns ?s1 c)
           \<and> destroyed (conns s' c) = destroyed (conns ?s1 c)"
    by blast
  then show ?case
    using a by (auto simp add: handlePong_def emit_def)
qed

lemma run_append:
  "run (xs @ ys) s = (case run xs s of Inl e \<Rightarrow> Inl e | Inr s' \<Rightarrow> run ys s')"
  by (induction xs arbitrary: s) (simp_all split: sum.splits)

lemma pinged_fields:
  "isAlive (pinged c) = False" "mode (pinged c) = mode c" "destroyed (pinged c) = destroyed c"
  by (simp_all add: pinged_def socket_write_def)

text \<open>
  C6. Take a tracked connection that is alive when a sweep runs, then any PONG receptions
  (on any connections), then the next sweep. Both sweeps run without error, and the
  connection is still tracked and untouched by \<open>destroy\<close> before the second sweep.
  If no PONG arrived on it in between, the second sweep destroys it and stops tracking it.
  If one did, its flag was true again, the second sweep clears the flag and pings it, and
  it stays tracked and is not destroyed.
\<close>

theorem liveness_sweep:
  "distinct (clients s) \<and> c \<in> set (clients s) \<and> isAlive (conns s c) \<and> Sweep \<notin> set acts \<longrightarrow>
   (\<exists>s2 s3. run (Sweep # acts) s = Inr s2 \<and> run (Sweep # acts @ [Sweep]) s = Inr s3
      \<and> c \<in> set (clients s2) \<and> destroyed (conns s2 c) = destroyed (conns s c)
      \<and> (Pong c \<notin> set acts \<longrightarrow> destroyed (conns s3 c) \<and> c \<notin> set (clients s3))
      \<and> (Pong c \<in> set acts \<longrightarrow>
            c \<in> set (clients s3) \<and> destroyed (conns s3 c) = destroyed (conns s c)
            \<and> isAlive (conns s2 c)
            \<and> ping ((conns s2 c)\<lparr>isAlive := False\<rparr>) = Inr (conns s3 c)))"
proof (intro impI, elim conjE)
  assume d: "distinct (clients s)" and c: "c \<in> set (clients s)"
    and alive: "isAlive (conns s c)" and acts: "Sweep \<notin> set acts"
  from sweep_effect [OF d] obtain s1 where
    s1: "sweep s = Inr s1"
    and c1: "\<forall>c \<in> set (clients s). conns s1 c =
            (if isAlive (conns s c) then pinged (conns s c) else destroy (conns s c))"
    and l1: "clients s1 = filter (\<lambda>c. isAlive (conns s c)) (clients s)"
    by blast
  from run_pongs [OF acts, of s1] obtain s2 where
    s2: "run acts s1 = Inr s2" and l2: "clients s2 = clients s1"
    and c2: "\<forall>c. isAlive (conns s2 c) = (isAlive (conns s1 c) \<or> Pong c \<in> set acts)
           \<and> mode (conns s2 c) = mode (conns s1 c)
           \<and> written (conns s2 c) = written (conns s1 c)
           \<and> destroyed (conns s2 c) = destroyed (conns s1 c)"
    by blast
  have d2: "distinct (clients s2)" using d l1 l2 by simp
  from sweep_effect [OF d2] obtain s3 where
    s3: "sweep s2 = Inr s3"
    and c3: "\<forall>c \<in> set (clients s2). conns s3 c =
            (if isAlive (conns s2 c) then pinged (conns s2 c) else destroy (conns s2 c))"
    and l3: "clients s3 = filter (\<lambda>c. isAlive (conns s2 c)) (clients s2)"
    by blast
  have conn1: "conns s1 c = pinged (conns s c)" using c1 c alive by simp
  have in2: "c \<in> set (clients s2)" using c alive l1 l2 by simp
  have alive2: "isAlive (conns s2 c) = (Pong c \<in> set acts)"
    using c2 conn1 by (simp add: pinged_fields)
  have destr2: "destroyed (conns s2 c) = destroyed (conns s c)"
    using c2 conn1 by (simp add: pinged_fields)
  have r2: "run (Sweep # acts) s = Inr s2" using s1 s2 by simp
  have r3: "run (Sweep # acts @ [Sweep]) s = Inr s3"
    using s1 s2 s3 by (simp add: run_append)
  have no_pong: "destroyed (conns s3 c) \<and> c \<notin> set (clients s3)" if "Pong c \<notin> set acts"
    using that c3 in2 alive2 l3 by (simp add: destroy_def)
  have pong: "c \<in> set (clients s3) \<and> destroyed (conns s3 c) = destroyed (conns s c)
            \<and> isAlive (conns s2 c)
            \<and> ping ((conns s2 c)\<lparr>isAlive := False\<rparr>) = Inr (conns s3 c)" if "Pong c \<in> set acts"
    using that c3 in2 alive2 l3 destr2 by (simp add: ping_pinged pinged_fields)
  from r2 r3 in2 destr2 no_pong pong
  show "\<exists>s2 s3. run (Sweep # acts) s = Inr s2 \<and> run (Sweep # acts @ [Sweep]) s = Inr s3
      \<and> c \<in> set (clients s2) \<and> destroyed (conns s2 c) = destroyed (conns s c)
      \<and> (Pong c \<notin> set acts \<longrightarrow> destroyed (conns s3 c) \<and> c \<notin> set (clients s3))
      \<and> (Pong c \<in> set acts \<longrightarrow>
            c \<in> set (clients s3) \<and> destroyed (conns s3 c) = destroyed (conns s c)
            \<and> isAlive (conns s2 c)
            \<and> ping ((conns s2 c)\<lparr>isAlive := False\<rparr>) = Inr (conns s3 c))"
    by blast
qed

text \<open>A server with two fresh connections, at the addresses 0 and 1.\<close>

definition two_clients :: NyxWSServer where
  "two_clients = \<lparr>clients = [0, 1], conns = (\<lambda>a. new_NyxWSConnection WEBSOCKET)\<rparr>"

theorem liveness_sweep_witness:
  "distinct (clients two_clients) \<and> 0 \<in> set (clients two_clients) \<and> 1 \<in> set (clients two_clients)
   \<and> isAlive (conns two_clients 0) \<and> isAlive (conns two_clients 1)
   \<and> Sweep \<notin> set [Pong 1] \<and> Pong 0 \<notin> set [Pong 1] \<and> Pong 1 \<in> set [Pong 1]
   \<and> (\<exists>s3. run [Sweep, Pong 1, Sweep] two_clients = Inr s3
         \<and> destroyed (conns s3 0) \<and> 0 \<notin> set (clients s3)
         \<and> 1 \<in> set (clients s3) \<and> \<not> destroyed (conns s3 1))"
proof -
  have h: "distinct (clients two_clients)" "0 \<in> set (clients two_clients)"
    "1 \<in> set (clients two_clients)" "isAlive (conns two_clients 0)"
    "isAlive (conns two_clients 1)" "\<not> destroyed (conns two_clients 1)"
    by (simp_all add: two_clients_def new_NyxWSConnection_def)
  show ?thesis
    using liveness_sweep [of two_clients 0 "[Pong 1]"] liveness_sweep [of two_clients 1 "[Pong 1]"] h
    by auto
qed

section \<open>Decoding: what the code does on short and on coalesced input\<close>

text \<open>
  C3. \<open>readValue\<close> on inputs that end before the declared length. A STRING that
  declares 5 bytes where 1 remains is returned cut short, with no error, and the offset
  past the end of the buffer; a SHORT with 1 byte left fails with the \<open>RangeError\<close> of
  \<open>readInt16BE\<close>, not with \<open>'Buffer underflow'\<close>; so does an INT with 3 bytes left. An
  ARRAY whose count decodes to \<open>-1\<close> fails with the \<open>RangeError\<close> of \<open>new Array\<close>.
\<close>

theorem readValue_short_input:
  "readValue no_floats 1 (new_ProtocolReader [0x08, 0x05, 0x61])
     = Inr (Str ''a'', \<lparr>buffer = [0x08, 0x05, 0x61], offset = 7\<rparr>)
   \<and> readValue no_floats 1 (new_ProtocolReader [0x03, 0x01]) = Inl OutOfRange
   \<and> readValue no_floats 1 (new_ProtocolReader [0x04, 0x00, 0x00, 0x01]) = Inl OutOfRange
   \<and> readValue no_floats 1 (new_ProtocolReader [0x0a, 0xff, 0xff, 0xff, 0xff, 0x0f])
       = Inl InvalidArrayLength"
  by code_simp

text \<open>
  C2. Two valid packets, PING and PONG with empty payloads, arrive in one read on a fresh
  session. \<open>parse\<close> checks the checksum of the first against all the bytes of the
  buffer but the last, so it fails with a checksum mismatch; the handler then empties the
  buffer. No message is sent to the WebSocket and both packets are lost. Each packet alone
  is delivered.
\<close>

theorem bridge_coalesced_packets:
  "create no_floats 0x33 [] False @ create no_floats 0x34 [] False
     = [0x42, 0x4e, 0x01, 0x00, 0x33, 0x01, 0x00, 0x6f, 0x42, 0x4e, 0x01, 0x00, 0x34, 0x01, 0x00, 0x6c]
   \<and> parse no_floats 8 (create no_floats 0x33 [] False @ create no_floats 0x34 [] False)
       = Inl ChecksumMismatch
   \<and> onData no_floats 8 (create no_floats 0x33 [] False @ create no_floats 0x34 [] False)
         \<lparr>tcpBuffer = [], wsOpen = True, wsSent = []\<rparr>
       = \<lparr>tcpBuffer = [], wsOpen = True, wsSent = []\<rparr>
   \<and> onData no_floats 8 (create no_floats 0x34 [] False)
         (onData no_floats 8 (create no_floats 0x33 [] False)
            \<lparr>tcpBuffer = [], wsOpen = True, wsSent = []\<rparr>)
       = \<lparr>tcpBuffer = [], wsOpen = True, wsSent = [(0x33, []), (0x34, [])]\<rparr>"
  by code_simp

section \<open>Packet round trip\<close>

text \<open>
  C1, as stated, fails: the integer \<open>-1\<close> is written as a BYTE (it lies in
  \<open>[-128, 127]\<close>) and read back unsigned, as 255.
\<close>

theorem packet_roundtrip_counterexample:
  "parse no_floats 8 (create no_floats 0x33 [(''a'', Num (IntNum (- 1)))] False)
     \<noteq> Inr \<lparr>opcode = 0x33, data = [(''a'', Num (IntNum (- 1)))], isEncrypted = False\<rparr>"
proof -
  have "parse no_floats 8 (create no_floats 0x33 [(''a'', Num (IntNum (- 1)))] False)
     = Inr \<lparr>opcode = 0x33, data = [(''a'', Num (IntNum 255))], isEncrypted = False\<rparr>"
    by code_simp
  then show ?thesis by simp
qed

end
